theory Spec2Isabelle
  imports Main "HOL-Library.AList"
begin

section \<open>Room presence and broadcast coordinator: the data model\<close>

text \<open>
  The websocket server keeps one process-global table
  \<^verbatim>\<open>const clients = new Map<string, ClientConnection>()\<close>. A JavaScript \<open>Map\<close> iterates in
  insertion order, \<open>set\<close> on a key that is present replaces the value in place, \<open>set\<close> on a
  new key appends, and \<open>delete\<close> removes the key. The table is therefore an association
  list with \<open>AList.update\<close>, \<open>AList.delete\<close> and \<open>map_of\<close>. Every \<open>ClientConnection\<close>
  object is created by one \<open>join\<close> and stored under one key only, and no handler keeps a
  reference across an \<open>await\<close>, so objects are modelled as values.

  \<open>Date.now()\<close> is a natural number handed to each handler. \<open>failedHeartbeats\<close> starts at 0
  and is only ever incremented or reset to 0, so it is a natural number.
\<close>

record ClientConnection =
  ws :: nat
  userId :: string
  roomId :: string
  failedHeartbeats :: nat
  lastHeartbeat :: nat

type_synonym registry = "(string \<times> ClientConnection) list"

text \<open>
  The rows of the external store that the sweeper reads. The Prisma schema of \<open>Room\<close> and
  \<open>RoomMember\<close> is not part of the sources; the fields are the ones the code reads:
  \<open>room.id\<close>, \<open>room.roomId\<close>, \<open>room.ownerId\<close>, \<open>room.status\<close>, \<open>member.roomId\<close> (which
  refers to \<open>room.id\<close>) and \<open>member.userId\<close>.
\<close>

record Room =
  room_id :: string
  room_roomId :: string
  room_ownerId :: string
  room_status :: string

record RoomMember =
  member_roomId :: string
  member_userId :: string

datatype reason = owner_disconnected | owner_timeout

text \<open>The JSON objects the server writes to a transport; a payload is the JSON text.\<close>

datatype outbound =
    Out_joined string string
  | Out_heartbeat_ack nat
  | Out_heartbeat nat
  | Out_room_deleted string "reason option"
  | Out_draw_event string

text \<open>
  The frames a transport delivers, after \<open>JSON.parse\<close>: a frame that does not parse (or parses
  to \<open>null\<close>) makes the handler throw, \<open>In_join\<close> carries \<open>data.userId\<close> and \<open>data.roomId\<close>
  (\<open>None\<close> when the field is missing or \<open>null\<close>), \<open>In_other\<close> is any other \<open>type\<close>. Fields
  that are not strings are outside the model.

  \<open>In_draw_event\<close> carries two texts: \<open>message\<close>, the frame as the transport delivered it,
  and the text that \<open>JSON.stringify(data)\<close> gives for the object \<open>data\<close> that
  \<open>JSON.parse(message)\<close> returned. The handler relays the second; the two are the same JSON
  value, but not the same text unless the frame came in the form \<open>JSON.stringify\<close> writes.
  \<open>JSON\<close> belongs to the runtime, so the second text is given with the frame.
\<close>

datatype inbound =
    In_malformed
  | In_join "string option" "string option"
  | In_heartbeat
  | In_draw_event string string
  | In_other

text \<open>
  The calls of \<open>console.error\<close>, by call site. The \<open>console.log\<close> lines report progress
  only and are left out.
\<close>

datatype console_error =
    message_error
  | websocket_error
  | notify_user_failed string
  | probe_failed string string
  | notify_member_failed string
  | sweep_error
  | leave_error

text \<open>
  The whole state: the registry, the two tables of the store, the transports whose \<open>send\<close>
  raises (the environment; no handler changes it), every frame written so far with the
  transport it was written to, and the error log.
\<close>

record state =
  clients :: registry
  rooms :: "Room list"
  roomMembers :: "RoomMember list"
  broken :: "nat set"
  sent :: "(nat \<times> outbound) list"
  errors :: "console_error list"

text \<open>How a block of the sweeper ends: it falls through, it executes \<open>return\<close>, or it throws.\<close>

datatype outcome = Normal state | Returned state | Thrown state

text \<open>The variables \<open>userId\<close> and \<open>roomId\<close> that each connection's handlers close over.\<close>

record conn =
  conn_ws :: nat
  conn_userId :: "string option"
  conn_roomId :: "string option"

section \<open>Primitives\<close>

definition clientId :: "string \<Rightarrow> string \<Rightarrow> string" where
  "clientId rid uid = rid @ ''_'' @ uid"

text \<open>\<open>ws.send\<close>: \<open>None\<close> when the call raises, otherwise the frame is written.\<close>

definition ws_send :: "nat \<Rightarrow> outbound \<Rightarrow> state \<Rightarrow> state option" where
  "ws_send w m s = (if w \<in> broken s then None else Some (s\<lparr>sent := sent s @ [(w, m)]\<rparr>))"

definition log_error :: "console_error \<Rightarrow> state \<Rightarrow> state" where
  "log_error e s = s\<lparr>errors := errors s @ [e]\<rparr>"

definition clients_set :: "string \<Rightarrow> ClientConnection \<Rightarrow> state \<Rightarrow> state" where
  "clients_set k c s = s\<lparr>clients := AList.update k c (clients s)\<rparr>"

definition clients_delete :: "string \<Rightarrow> state \<Rightarrow> state" where
  "clients_delete k s = s\<lparr>clients := AList.delete k (clients s)\<rparr>"

definition clients_get :: "state \<Rightarrow> string \<Rightarrow> ClientConnection option" where
  "clients_get s k = map_of (clients s) k"

subsection \<open>The store\<close>

text \<open>
  The queries are filters over the two tables. \<open>delete\<close> of a row that does not exist
  raises, as Prisma does.
\<close>

definition room_findMany_active :: "state \<Rightarrow> Room list" where
  "room_findMany_active s = filter (\<lambda>r. room_status r = ''active'') (rooms s)"

definition room_findUnique :: "string \<Rightarrow> state \<Rightarrow> Room option" where
  "room_findUnique rid s = find (\<lambda>r. room_id r = rid) (rooms s)"

definition roomMember_findMany :: "string \<Rightarrow> state \<Rightarrow> RoomMember list" where
  "roomMember_findMany rid s = filter (\<lambda>m. member_roomId m = rid) (roomMembers s)"

definition roomMember_findMany_not :: "string \<Rightarrow> string \<Rightarrow> state \<Rightarrow> RoomMember list" where
  "roomMember_findMany_not rid uid s =
     filter (\<lambda>m. member_roomId m = rid \<and> member_userId m \<noteq> uid) (roomMembers s)"

definition roomMember_findUnique :: "string \<Rightarrow> string \<Rightarrow> state \<Rightarrow> RoomMember option" where
  "roomMember_findUnique rid uid s =
     find (\<lambda>m. member_roomId m = rid \<and> member_userId m = uid) (roomMembers s)"

definition roomMember_count :: "string \<Rightarrow> state \<Rightarrow> nat" where
  "roomMember_count rid s = length (roomMember_findMany rid s)"

definition roomMember_delete :: "string \<Rightarrow> string \<Rightarrow> state \<Rightarrow> state option" where
  "roomMember_delete rid uid s =
     (case roomMember_findUnique rid uid s of
        None \<Rightarrow> None
      | Some _ \<Rightarrow> Some (s\<lparr>roomMembers :=
          filter (\<lambda>m. \<not> (member_roomId m = rid \<and> member_userId m = uid)) (roomMembers s)\<rparr>))"

text \<open>
  Modelled from the spec: the schema that says what \<open>prisma.room.delete\<close> does to the
  memberships of the room is missing. The spec says that dissolution "deletes the room
  and all memberships from the external store as a single logical unit" and "transitively
  removes all memberships", so deleting a room deletes its memberships with it.
\<close>

definition room_delete :: "string \<Rightarrow> state \<Rightarrow> state option" where
  "room_delete rid s =
     (case room_findUnique rid s of
        None \<Rightarrow> None
      | Some _ \<Rightarrow> Some (s\<lparr>rooms := filter (\<lambda>r. room_id r \<noteq> rid) (rooms s),
                           roomMembers := filter (\<lambda>m. member_roomId m \<noteq> rid) (roomMembers s)\<rparr>))"

subsection \<open>A route that changes the store\<close>



section \<open>The protocol handler\<close>

text \<open>
  \<open>clients.forEach\<close> of the \<open>draw_event\<close> branch; \<open>d\<close> is \<open>JSON.stringify(data)\<close>. No \<open>try\<close>
  surrounds the \<open>send\<close> inside the callback, so a \<open>send\<close> that raises ends the traversal.
\<close>

fun broadcast :: "ClientConnection list \<Rightarrow> string \<Rightarrow> string option \<Rightarrow> string \<Rightarrow> state \<Rightarrow> outcome" where
  "broadcast [] rid uid d s = Normal s"
| "broadcast (client # cs) rid uid d s =
     (if roomId client = rid \<and> Some (userId client) \<noteq> uid then
        (case ws_send (ws client) (Out_draw_event d) s of
           None \<Rightarrow> Thrown s
         | Some s1 \<Rightarrow> broadcast cs rid uid d s1)
      else broadcast cs rid uid d s)"

text \<open>
  \<open>ws.on('message', ...)\<close>. The whole body is inside one \<open>try\<close>; its \<open>catch\<close> logs. The
  result is the connection's variables and the state. A value is truthy when it is a
  string that is not empty.
\<close>

definition catch_message :: "state option \<Rightarrow> state \<Rightarrow> state" where
  "catch_message r s = (case r of Some s1 \<Rightarrow> s1 | None \<Rightarrow> log_error message_error s)"

fun on_message :: "nat \<Rightarrow> conn \<Rightarrow> inbound \<Rightarrow> state \<Rightarrow> conn \<times> state" where
  "on_message now c In_malformed s = (c, log_error message_error s)"
| "on_message now c (In_join u r) s =
     (let c1 = c\<lparr>conn_userId := u, conn_roomId := r\<rparr> in
      case (u, r) of
        (Some uid, Some rid) \<Rightarrow>
          if uid \<noteq> [] \<and> rid \<noteq> [] then
            (let s1 = clients_set (clientId rid uid)
                        \<lparr>ws = conn_ws c, userId = uid, roomId = rid,
                         failedHeartbeats = 0, lastHeartbeat = now\<rparr> s
             in (c1, catch_message (ws_send (conn_ws c) (Out_joined rid uid) s1) s1))
          else (c1, s)
      | _ \<Rightarrow> (c1, s))"
| "on_message now c In_heartbeat s =
     (case (conn_userId c, conn_roomId c) of
        (Some uid, Some rid) \<Rightarrow>
          if uid \<noteq> [] \<and> rid \<noteq> [] then
            (case clients_get s (clientId rid uid) of
               Some client \<Rightarrow>
                 (let s1 = clients_set (clientId rid uid)
                             (client\<lparr>failedHeartbeats := 0, lastHeartbeat := now\<rparr>) s
                  in (c, catch_message (ws_send (conn_ws c) (Out_heartbeat_ack now) s1) s1))
             | None \<Rightarrow> (c, s))
          else (c, s)
      | _ \<Rightarrow> (c, s))"
| "on_message now c (In_draw_event message stringified) s =
     (case conn_roomId c of
        Some rid \<Rightarrow>
          if rid \<noteq> [] then
            (case broadcast (map snd (clients s)) rid (conn_userId c) stringified s of
               Normal s1 \<Rightarrow> (c, s1)
             | Returned s1 \<Rightarrow> (c, s1)
             | Thrown s1 \<Rightarrow> (c, log_error message_error s1))
          else (c, s)
      | None \<Rightarrow> (c, s))"
| "on_message now c In_other s = (c, s)"

text \<open>\<open>ws.on('close', ...)\<close> and \<open>ws.on('error', ...)\<close>.\<close>

definition on_close :: "conn \<Rightarrow> state \<Rightarrow> state" where
  "on_close c s =
     (case (conn_userId c, conn_roomId c) of
        (Some uid, Some rid) \<Rightarrow>
          if uid \<noteq> [] \<and> rid \<noteq> [] then clients_delete (clientId rid uid) s else s
      | _ \<Rightarrow> s)"

definition on_error :: "conn \<Rightarrow> state \<Rightarrow> state" where
  "on_error c s = log_error websocket_error s"

section \<open>The liveness sweeper\<close>

text \<open>
  The body of \<open>heartbeatCheckInterval\<close>. The functions below say what it does when nothing
  else runs while it awaits the store: each store call is evaluated in place. In the
  program a frame handler or a route can run at every \<open>await\<close>; the loop over the members
  takes the list that was read at the start of the room, so a store that has changed
  since the list was read is a state these functions can be run from.
  \<open>MAX_FAILED_HEARTBEATS\<close> comes from a constants module that is not part of the sources
  and is a parameter.
\<close>

text \<open>The room has vanished: notify every member that has an entry and remove the entry.\<close>

fun notify_vanished :: "Room \<Rightarrow> RoomMember list \<Rightarrow> state \<Rightarrow> state" where
  "notify_vanished room [] s = s"
| "notify_vanished room (member # ms) s =
     (let cid = clientId (room_roomId room) (member_userId member) in
      case clients_get s cid of
        Some client \<Rightarrow>
          (case ws_send (ws client) (Out_room_deleted (room_roomId room) None) s of
             Some s1 \<Rightarrow> notify_vanished room ms (clients_delete cid s1)
           | None \<Rightarrow> notify_vanished room ms
                      (clients_delete cid (log_error (notify_user_failed (member_userId member)) s)))
      | None \<Rightarrow> notify_vanished room ms s)"

text \<open>
  The loop over \<open>otherMembers\<close> before the room is deleted. The source has it twice, once
  with each reason; each \<open>send\<close> has its own \<open>try\<close>.
\<close>

fun notify_others :: "Room \<Rightarrow> reason \<Rightarrow> RoomMember list \<Rightarrow> state \<Rightarrow> state" where
  "notify_others room why [] s = s"
| "notify_others room why (otherMember # ms) s =
     (case clients_get s (clientId (room_roomId room) (member_userId otherMember)) of
        Some client \<Rightarrow>
          (case ws_send (ws client) (Out_room_deleted (room_roomId room) (Some why)) s of
             Some s1 \<Rightarrow> notify_others room why ms s1
           | None \<Rightarrow> notify_others room why ms
                      (log_error (notify_member_failed (member_userId otherMember)) s))
      | None \<Rightarrow> notify_others room why ms s)"

text \<open>Notify the other members, then \<open>prisma.room.delete\<close>.\<close>

definition dissolve :: "Room \<Rightarrow> RoomMember \<Rightarrow> reason \<Rightarrow> state \<Rightarrow> state option" where
  "dissolve room member why s =
     room_delete (room_id room)
       (notify_others room why
          (roomMember_findMany_not (room_id room) (member_userId member) s) s)"

text \<open>
  The first half of the loop body for one member: with an entry, send the probe and
  count it (the \<open>try\<close> and the \<open>catch\<close> both increment); without one, dissolve the
  room if the member is the owner, else delete the membership if it is still there.
\<close>

definition probe_member :: "nat \<Rightarrow> Room \<Rightarrow> RoomMember \<Rightarrow> state \<Rightarrow> outcome" where
  "probe_member now room member s =
     (let cid = clientId (room_roomId room) (member_userId member) in
      case clients_get s cid of
        Some client \<Rightarrow>
          (let counted = client\<lparr>failedHeartbeats := failedHeartbeats client + 1\<rparr> in
           case ws_send (ws client) (Out_heartbeat now) s of
             Some s1 \<Rightarrow> Normal (clients_set cid counted s1)
           | None \<Rightarrow> Normal (clients_set cid counted
                        (log_error (probe_failed (member_userId member) (room_roomId room)) s)))
      | None \<Rightarrow>
          if member_userId member = room_ownerId room then
            (case dissolve room member owner_disconnected s of
               Some s1 \<Rightarrow> Returned s1
             | None \<Rightarrow> Thrown (notify_others room owner_disconnected
                          (roomMember_findMany_not (room_id room) (member_userId member) s) s))
          else
            (case roomMember_findUnique (room_id room) (member_userId member) s of
               Some _ \<Rightarrow>
                 (case roomMember_delete (room_id room) (member_userId member) s of
                    Some s1 \<Rightarrow> Normal s1
                  | None \<Rightarrow> Thrown s)
             | None \<Rightarrow> Normal s))"

text \<open>The second half: the threshold check on the entry as it is now.\<close>

definition check_threshold :: "nat \<Rightarrow> Room \<Rightarrow> RoomMember \<Rightarrow> state \<Rightarrow> outcome" where
  "check_threshold MAX_FAILED_HEARTBEATS room member s =
     (let cid = clientId (room_roomId room) (member_userId member) in
      case clients_get s cid of
        Some updatedClient \<Rightarrow>
          if failedHeartbeats updatedClient \<ge> MAX_FAILED_HEARTBEATS then
            if member_userId member = room_ownerId room then
              (case dissolve room member owner_timeout s of
                 Some s1 \<Rightarrow> Returned (clients_delete cid s1)
               | None \<Rightarrow> Thrown (notify_others room owner_timeout
                            (roomMember_findMany_not (room_id room) (member_userId member) s) s))
            else
              (case roomMember_delete (room_id room) (member_userId member) s of
                 Some s1 \<Rightarrow> Normal (clients_delete cid s1)
               | None \<Rightarrow> Thrown s)
          else Normal s
      | None \<Rightarrow> Normal s)"

definition process_member :: "nat \<Rightarrow> nat \<Rightarrow> Room \<Rightarrow> RoomMember \<Rightarrow> state \<Rightarrow> outcome" where
  "process_member now MAX_FAILED_HEARTBEATS room member s =
     (case probe_member now room member s of
        Normal s1 \<Rightarrow> check_threshold MAX_FAILED_HEARTBEATS room member s1
      | Returned s1 \<Rightarrow> Returned s1
      | Thrown s1 \<Rightarrow> Thrown s1)"

text \<open>\<open>for (const member of members)\<close>: a \<open>return\<close> or a throw leaves the loop.\<close>

fun member_loop :: "nat \<Rightarrow> nat \<Rightarrow> Room \<Rightarrow> RoomMember list \<Rightarrow> state \<Rightarrow> outcome" where
  "member_loop now MAX_FAILED_HEARTBEATS room [] s = Normal s"
| "member_loop now MAX_FAILED_HEARTBEATS room (member # ms) s =
     (case process_member now MAX_FAILED_HEARTBEATS room member s of
        Normal s1 \<Rightarrow> member_loop now MAX_FAILED_HEARTBEATS room ms s1
      | Returned s1 \<Rightarrow> Returned s1
      | Thrown s1 \<Rightarrow> Thrown s1)"

text \<open>The loop body for one room; \<open>continue\<close> is \<open>Normal\<close>.\<close>

definition process_room :: "nat \<Rightarrow> nat \<Rightarrow> Room \<Rightarrow> state \<Rightarrow> outcome" where
  "process_room now MAX_FAILED_HEARTBEATS room s =
     (let members = roomMember_findMany (room_id room) s in
      case room_findUnique (room_id room) s of
        None \<Rightarrow> Normal (notify_vanished room members s)
      | Some _ \<Rightarrow>
          (case member_loop now MAX_FAILED_HEARTBEATS room members s of
             Normal s1 \<Rightarrow>
               if roomMember_count (room_id room) s1 = 0 then
                 (case room_delete (room_id room) s1 of
                    Some s2 \<Rightarrow> Normal s2
                  | None \<Rightarrow> Thrown s1)
               else Normal s1
           | Returned s1 \<Rightarrow> Returned s1
           | Thrown s1 \<Rightarrow> Thrown s1))"

fun room_loop :: "nat \<Rightarrow> nat \<Rightarrow> Room list \<Rightarrow> state \<Rightarrow> outcome" where
  "room_loop now MAX_FAILED_HEARTBEATS [] s = Normal s"
| "room_loop now MAX_FAILED_HEARTBEATS (room # rs) s =
     (case process_room now MAX_FAILED_HEARTBEATS room s of
        Normal s1 \<Rightarrow> room_loop now MAX_FAILED_HEARTBEATS rs s1
      | Returned s1 \<Rightarrow> Returned s1
      | Thrown s1 \<Rightarrow> Thrown s1)"

text \<open>One cycle: the outer \<open>catch\<close> logs what was thrown.\<close>

definition heartbeatCheckInterval :: "nat \<Rightarrow> nat \<Rightarrow> state \<Rightarrow> state" where
  "heartbeatCheckInterval now MAX_FAILED_HEARTBEATS s =
     (case room_loop now MAX_FAILED_HEARTBEATS (room_findMany_active s) s of
        Normal s1 \<Rightarrow> s1
      | Returned s1 \<Rightarrow> s1
      | Thrown s1 \<Rightarrow> log_error sweep_error s1)"

section \<open>Runs\<close>

text \<open>
  A sequence of \<open>join\<close> frames for one participant and one room, each from its own
  connection at its own time.
\<close>

fun run_joins :: "(nat \<times> conn) list \<Rightarrow> string \<Rightarrow> string \<Rightarrow> state \<Rightarrow> state" where
  "run_joins [] uid rid s = s"
| "run_joins (j # js) uid rid s =
     run_joins js uid rid (snd (on_message (fst j) (snd j) (In_join (Some uid) (Some rid)) s))"

text \<open>
  The frames that the loop over \<open>otherMembers\<close> writes: one for each listed member whose
  registry entry exists and whose transport takes the frame.
\<close>

fun notices :: "Room \<Rightarrow> reason \<Rightarrow> RoomMember list \<Rightarrow> state \<Rightarrow> (nat \<times> outbound) list" where
  "notices room why [] s = []"
| "notices room why (m # ms) s =
     (case clients_get s (clientId (room_roomId room) (member_userId m)) of
        Some client \<Rightarrow>
          (if ws client \<in> broken s then []
           else [(ws client, Out_room_deleted (room_roomId room) (Some why))])
      | None \<Rightarrow> []) @ notices room why ms s"

section \<open>Example inputs\<close>

definition st0 :: state where
  "st0 = \<lparr>clients = [], rooms = [], roomMembers = [], broken = {}, sent = [], errors = []\<rparr>"

definition T1 :: conn where
  "T1 = \<lparr>conn_ws = 1, conn_userId = None, conn_roomId = None\<rparr>"

definition T2 :: conn where
  "T2 = \<lparr>conn_ws = 2, conn_userId = None, conn_roomId = None\<rparr>"

definition room1 :: Room where
  "room1 = \<lparr>room_id = ''r1'', room_roomId = ''R1'', room_ownerId = ''U1'', room_status = ''active''\<rparr>"

definition room2 :: Room where
  "room2 = \<lparr>room_id = ''r2'', room_roomId = ''R2'', room_ownerId = ''U3'', room_status = ''active''\<rparr>"

definition memb :: "string \<Rightarrow> string \<Rightarrow> RoomMember" where
  "memb rid uid = \<lparr>member_roomId = rid, member_userId = uid\<rparr>"

definition mk_client :: "nat \<Rightarrow> string \<Rightarrow> string \<Rightarrow> nat \<Rightarrow> ClientConnection" where
  "mk_client w uid rid n = \<lparr>ws = w, userId = uid, roomId = rid, failedHeartbeats = n, lastHeartbeat = 0\<rparr>"

definition st_absent :: state where
  "st_absent = \<lparr>clients = [(''R1_U2'', mk_client 2 ''U2'' ''R1'' 0)], rooms = [room1],
     roomMembers = [memb ''r1'' ''U2'', memb ''r1'' ''U1''], broken = {}, sent = [], errors = []\<rparr>"

definition st_absent_probed :: state where
  "st_absent_probed = \<lparr>clients = [(''R1_U2'', mk_client 2 ''U2'' ''R1'' 1)], rooms = [room1],
     roomMembers = [memb ''r1'' ''U2'', memb ''r1'' ''U1''], broken = {},
     sent = [(2, Out_heartbeat 9)], errors = []\<rparr>"

section \<open>Relations used in the proofs\<close>

text \<open>A step that falls through keeps the rooms and the transports, and writes no
  \<open>room_deleted\<close> frame that carries a reason.\<close>

definition quiet :: "state \<Rightarrow> state \<Rightarrow> bool" where
  "quiet s s' \<longleftrightarrow>
     rooms s' = rooms s \<and> broken s' = broken s \<and>
     (\<exists>ps. sent s' = sent s @ ps \<and> (\<forall>x\<in>set ps. \<forall>rid why. snd x \<noteq> Out_room_deleted rid (Some why)))"

text \<open>The same for the frames alone.\<close>

definition calm :: "state \<Rightarrow> state \<Rightarrow> bool" where
  "calm s s' \<longleftrightarrow>
     (\<exists>ps. sent s' = sent s @ ps \<and> (\<forall>x\<in>set ps. \<forall>rid why. snd x \<noteq> Out_room_deleted rid (Some why)))"

definition st_two_rooms :: state where
  "st_two_rooms = \<lparr>clients = [(''R2_U3'', mk_client 3 ''U3'' ''R2'' 0)], rooms = [room1, room2],
     roomMembers = [memb ''r1'' ''U1'', memb ''r2'' ''U3''], broken = {}, sent = [], errors = []\<rparr>"

definition st_timeout :: state where
  "st_timeout = \<lparr>clients = [(''R1_U1'', mk_client 1 ''U1'' ''R1'' 2), (''R1_U2'', mk_client 2 ''U2'' ''R1'' 0)],
     rooms = [room1], roomMembers = [memb ''r1'' ''U1'', memb ''r1'' ''U2''],
     broken = {}, sent = [], errors = []\<rparr>"

definition st_broadcast :: state where
  "st_broadcast = \<lparr>clients = [(''R_A'', mk_client 1 ''A'' ''R'' 0), (''R_B'', mk_client 2 ''B'' ''R'' 0),
       (''R_C'', mk_client 3 ''C'' ''R'' 0)],
     rooms = [], roomMembers = [], broken = {2}, sent = [], errors = []\<rparr>"

definition conn_A :: conn where
  "conn_A = \<lparr>conn_ws = 1, conn_userId = Some ''A'', conn_roomId = Some ''R''\<rparr>"

definition st_probe_broken :: state where
  "st_probe_broken = \<lparr>clients = [(''R1_U2'', mk_client 2 ''U2'' ''R1'' 0)], rooms = [room1],
     roomMembers = [memb ''r1'' ''U1'', memb ''r1'' ''U2''], broken = {2}, sent = [], errors = []\<rparr>"

section \<open>Invariants used in the proofs\<close>

definition state_of :: "outcome \<Rightarrow> state" where
  "state_of r = (case r of Normal s \<Rightarrow> s | Returned s \<Rightarrow> s | Thrown s \<Rightarrow> s)"

definition grows :: "state \<Rightarrow> state \<Rightarrow> bool" where
  "grows s s' \<longleftrightarrow>
     (\<forall>k c'. clients_get s' k = Some c' \<longrightarrow>
        (\<exists>c n. clients_get s k = Some c \<and> c' = c\<lparr>failedHeartbeats := failedHeartbeats c + n\<rparr>))"

definition is_member :: "string \<Rightarrow> string \<Rightarrow> state \<Rightarrow> bool" where
  "is_member rid uid s \<longleftrightarrow> roomMember_findUnique rid uid s \<noteq> None"

definition without_member :: "string \<Rightarrow> string \<Rightarrow> state \<Rightarrow> state" where
  "without_member rid uid s =
     s\<lparr>roomMembers := filter (\<lambda>m. \<not> (member_roomId m = rid \<and> member_userId m = uid)) (roomMembers s)\<rparr>"

definition probed :: "nat \<Rightarrow> Room \<Rightarrow> RoomMember \<Rightarrow> ClientConnection \<Rightarrow> state \<Rightarrow> state" where
  "probed now room member cl s =
     clients_set (clientId (room_roomId room) (member_userId member))
       (cl\<lparr>failedHeartbeats := failedHeartbeats cl + 1\<rparr>)
       (if ws cl \<in> broken s
        then log_error (probe_failed (member_userId member) (room_roomId room)) s
        else s\<lparr>sent := sent s @ [(ws cl, Out_heartbeat now)]\<rparr>)"

definition conn_U1 :: conn where
  "conn_U1 = \<lparr>conn_ws = 1, conn_userId = Some ''U1'', conn_roomId = Some ''R1''\<rparr>"

section \<open>More relations and inputs used in the proofs\<close>

definition extends :: "state \<Rightarrow> state \<Rightarrow> bool" where
  "extends s s' \<longleftrightarrow> (\<exists>post. sent s' = sent s @ post)"

definition after_members :: "Room \<Rightarrow> state \<Rightarrow> outcome" where
  "after_members room s1 =
     (if roomMember_count (room_id room) s1 = 0 then
        (case room_delete (room_id room) s1 of
           Some s2 \<Rightarrow> Normal s2
         | None \<Rightarrow> Thrown s1)
      else Normal s1)"

definition finish :: "outcome \<Rightarrow> state" where
  "finish r = (case r of Normal s1 \<Rightarrow> s1 | Returned s1 \<Rightarrow> s1 | Thrown s1 \<Rightarrow> log_error sweep_error s1)"

definition st_healthy :: state where
  "st_healthy = \<lparr>clients = [(''R1_U1'', mk_client 1 ''U1'' ''R1'' 0), (''R1_U2'', mk_client 2 ''U2'' ''R1'' 1)],
     rooms = [room1], roomMembers = [memb ''r1'' ''U1'', memb ''r1'' ''U2''],
     broken = {}, sent = [], errors = []\<rparr>"

definition st_healthy_U1_probed :: state where
  "st_healthy_U1_probed = \<lparr>clients = [(''R1_U1'', mk_client 1 ''U1'' ''R1'' 1), (''R1_U2'', mk_client 2 ''U2'' ''R1'' 1)],
     rooms = [room1], roomMembers = [memb ''r1'' ''U1'', memb ''r1'' ''U2''],
     broken = {}, sent = [(1, Out_heartbeat 9)], errors = []\<rparr>"



definition counted :: "string list \<Rightarrow> state \<Rightarrow> state \<Rightarrow> bool" where
  "counted ks s s' \<longleftrightarrow>
     rooms s' = rooms s \<and> roomMembers s' = roomMembers s \<and>
     map fst (clients s') = map fst (clients s) \<and>
     (\<forall>k. clients_get s' k =
        (if k \<in> set ks
         then map_option (\<lambda>cl. cl\<lparr>failedHeartbeats := failedHeartbeats cl + 1\<rparr>) (clients_get s k)
         else clients_get s k))"





text \<open>
  A \<open>draw_event\<close> frame with blanks in it, and the text \<open>JSON.stringify\<close> writes for the
  object it parses to.
\<close>

definition frame_in :: string where
  \<open>frame_in = ''{ "type": "draw_event", "x": 1 }''\<close>

definition frame_out :: string where
  \<open>frame_out = ''{"type":"draw_event","x":1}''\<close>


section \<open>Facts about the primitives\<close>

lemma clients_get_set [simp]:
  "clients_get (clients_set k c s) k' = (if k' = k then Some c else clients_get s k')"
  by (simp add: clients_get_def clients_set_def update_conv')

lemma clients_get_delete [simp]:
  "clients_get (clients_delete k s) k' = (if k' = k then None else clients_get s k')"
  by (simp add: clients_get_def clients_delete_def delete_conv')

lemma clients_get_log_error [simp]: "clients_get (log_error e s) k = clients_get s k"
  by (simp add: clients_get_def log_error_def)

lemma clients_get_ws_send: "ws_send w m s = Some s1 \<Longrightarrow> clients_get s1 k = clients_get s k"
  by (auto simp: clients_get_def ws_send_def split: if_splits)

lemma clients_get_catch_message [simp]:
  "clients_get (catch_message (ws_send w m s) s) k = clients_get s k"
  by (auto simp: catch_message_def clients_get_def ws_send_def log_error_def)

lemma clients_catch_message [simp]:
  "clients (catch_message (ws_send w m s) s) = clients s"
  by (auto simp: catch_message_def ws_send_def log_error_def)

section \<open>Joining and closing\<close>

lemma join_installs:
  assumes "uid \<noteq> []" "rid \<noteq> []"
  shows "clients_get (snd (on_message now c (In_join (Some uid) (Some rid)) s)) (clientId rid uid)
         = Some \<lparr>ws = conn_ws c, userId = uid, roomId = rid, failedHeartbeats = 0, lastHeartbeat = now\<rparr>"
  using assms by (simp add: Let_def)

lemma join_vars:
  "fst (on_message now c (In_join u r) s) = c\<lparr>conn_userId := u, conn_roomId := r\<rparr>"
  by (simp add: Let_def split: option.splits)

text \<open>
  C10. Transport T1 joins the key of room \<open>R\<close> and participant \<open>P\<close>, transport T2 joins the
  same key afterwards, and T1 closes: the entry under the key, which is the connection
  that T2 installed, is removed, because the close handler deletes by key and does not
  look at the stored transport.
\<close>

theorem close_removes_replacement:
  assumes "P \<noteq> []" and "R \<noteq> []"
    and "on_message t1 c1 (In_join (Some P) (Some R)) s0 = (c1', s1)"
    and "on_message t2 c2 (In_join (Some P) (Some R)) s1 = (c2', s2)"
  shows "clients_get s2 (clientId R P) =
           Some \<lparr>ws = conn_ws c2, userId = P, roomId = R, failedHeartbeats = 0, lastHeartbeat = t2\<rparr>
         \<and> clients_get (on_close c1' s2) (clientId R P) = None"
proof -
  have v: "c1' = c1\<lparr>conn_userId := Some P, conn_roomId := Some R\<rparr>"
    using join_vars [of t1 c1 "Some P" "Some R" s0] assms(3) by simp
  have e: "clients_get s2 (clientId R P) =
      Some \<lparr>ws = conn_ws c2, userId = P, roomId = R, failedHeartbeats = 0, lastHeartbeat = t2\<rparr>"
    using join_installs [OF assms(1,2), of t2 c2 s1] assms(4) by simp
  have "clients_get (on_close c1' s2) (clientId R P) = None"
    using assms(1,2) by (simp add: v on_close_def)
  with e show ?thesis by simp
qed

theorem close_removes_replacement_witness:
  "''P'' \<noteq> [] \<and> ''R'' \<noteq> [] \<and>
   clients_get (snd (on_message 7 T2 (In_join (Some ''P'') (Some ''R''))
       (snd (on_message 5 T1 (In_join (Some ''P'') (Some ''R'')) st0)))) (clientId ''R'' ''P'') =
     Some \<lparr>ws = 2, userId = ''P'', roomId = ''R'', failedHeartbeats = 0, lastHeartbeat = 7\<rparr> \<and>
   clients_get (on_close (fst (on_message 5 T1 (In_join (Some ''P'') (Some ''R'')) st0))
       (snd (on_message 7 T2 (In_join (Some ''P'') (Some ''R''))
         (snd (on_message 5 T1 (In_join (Some ''P'') (Some ''R'')) st0))))) (clientId ''R'' ''P'') = None"
  using close_removes_replacement [of "''P''" "''R''" 5 T1 st0
      "fst (on_message 5 T1 (In_join (Some ''P'') (Some ''R'')) st0)"
      "snd (on_message 5 T1 (In_join (Some ''P'') (Some ''R'')) st0)" 7 T2
      "fst (on_message 7 T2 (In_join (Some ''P'') (Some ''R''))
         (snd (on_message 5 T1 (In_join (Some ''P'') (Some ''R'')) st0)))"
      "snd (on_message 7 T2 (In_join (Some ''P'') (Some ''R''))
         (snd (on_message 5 T1 (In_join (Some ''P'') (Some ''R'')) st0)))"]
  by (simp add: T2_def)

lemma one_entry:
  "distinct (map fst al) \<Longrightarrow> map_of al k = Some v \<Longrightarrow> length (filter (\<lambda>e. fst e = k) al) = 1"
proof (induction al)
  case Nil
  then show ?case by simp
next
  case (Cons a al)
  show ?case
  proof (cases "fst a = k")
    case True
    with Cons.prems have "k \<notin> fst ` set al" by auto
    then have "filter (\<lambda>e. fst e = k) al = []" by (auto simp: filter_empty_conv)
    with True show ?thesis by simp
  next
    case False
    with Cons show ?thesis by (cases a) auto
  qed
qed

lemma join_distinct:
  "distinct (map fst (clients s)) \<Longrightarrow>
   distinct (map fst (clients (snd (on_message now c (In_join u r) s))))"
  by (auto simp: Let_def clients_set_def distinct_update split: option.splits)

lemma run_joins_last:
  assumes "uid \<noteq> []" "rid \<noteq> []" "js \<noteq> []"
  shows "clients_get (run_joins js uid rid s) (clientId rid uid) =
    Some \<lparr>ws = conn_ws (snd (last js)), userId = uid, roomId = rid,
          failedHeartbeats = 0, lastHeartbeat = fst (last js)\<rparr>"
  using assms(3)
proof (induction js arbitrary: s)
  case Nil
  then show ?case by simp
next
  case (Cons j js)
  show ?case
  proof (cases "js = []")
    case True
    then show ?thesis
      using join_installs [OF assms(1,2)] by (simp del: on_message.simps)
  next
    case False
    then show ?thesis using Cons.IH by (simp del: on_message.simps)
  qed
qed

lemma run_joins_distinct:
  "distinct (map fst (clients s)) \<Longrightarrow> distinct (map fst (clients (run_joins js uid rid s)))"
proof (induction js arbitrary: s)
  case Nil
  then show ?case by simp
next
  case (Cons j js)
  show ?case
    using Cons.IH [OF join_distinct [OF Cons.prems]] by (simp del: on_message.simps)
qed

text \<open>
  C8. After any non-empty sequence of accepted \<open>join\<close> frames for the same room and
  participant, the registry (a table with one entry per key) holds exactly one entry
  under that key; it is the connection of the last join, its failure counter is 0 and
  its last-ack timestamp is the time of that join.
\<close>

theorem joins_last_writer_wins:
  assumes "uid \<noteq> []" and "rid \<noteq> []" and "js \<noteq> []"
    and "distinct (map fst (clients s))"
  shows "clients_get (run_joins js uid rid s) (clientId rid uid) =
           Some \<lparr>ws = conn_ws (snd (last js)), userId = uid, roomId = rid,
                 failedHeartbeats = 0, lastHeartbeat = fst (last js)\<rparr>
         \<and> length (filter (\<lambda>e. fst e = clientId rid uid) (clients (run_joins js uid rid s))) = 1"
  using run_joins_last [OF assms(1-3)] one_entry [OF run_joins_distinct [OF assms(4)]]
  by (simp add: clients_get_def)

theorem joins_last_writer_wins_witness:
  "''P'' \<noteq> [] \<and> ''R'' \<noteq> [] \<and> [(5, T1), (7, T2)] \<noteq> [] \<and> distinct (map fst (clients st0)) \<and>
   clients_get (run_joins [(5, T1), (7, T2)] ''P'' ''R'' st0) (clientId ''R'' ''P'') =
     Some \<lparr>ws = 2, userId = ''P'', roomId = ''R'', failedHeartbeats = 0, lastHeartbeat = 7\<rparr> \<and>
   length (filter (\<lambda>e. fst e = clientId ''R'' ''P'')
     (clients (run_joins [(5, T1), (7, T2)] ''P'' ''R'' st0))) = 1"
  using joins_last_writer_wins [of "''P''" "''R''" "[(5, T1), (7, T2)]" st0]
  by (simp add: st0_def T2_def)

section \<open>Facts about the sweeper\<close>

lemma ws_send_Some: "ws_send w m s = Some s1 \<longleftrightarrow> w \<notin> broken s \<and> s1 = s\<lparr>sent := sent s @ [(w, m)]\<rparr>"
  by (auto simp: ws_send_def)

lemma ws_send_None: "ws_send w m s = None \<longleftrightarrow> w \<in> broken s"
  by (simp add: ws_send_def)

lemma notices_cong:
  "clients s' = clients s \<Longrightarrow> broken s' = broken s \<Longrightarrow> notices room why ms s' = notices room why ms s"
  by (induction ms) (simp_all add: clients_get_def split: option.splits)

lemma notify_others_frame:
  "clients (notify_others room why ms s) = clients s \<and>
   rooms (notify_others room why ms s) = rooms s \<and>
   roomMembers (notify_others room why ms s) = roomMembers s \<and>
   broken (notify_others room why ms s) = broken s \<and>
   sent (notify_others room why ms s) = sent s @ notices room why ms s"
proof (induction ms arbitrary: s)
  case Nil
  show ?case by simp
next
  case (Cons m ms)
  show ?case
  proof (cases "clients_get s (clientId (room_roomId room) (member_userId m))")
    case None
    then show ?thesis using Cons.IH [of s] by simp
  next
    case (Some client)
    show ?thesis
    proof (cases "ws client \<in> broken s")
      case True
      let ?s1 = "log_error (notify_member_failed (member_userId m)) s"
      have "notices room why ms ?s1 = notices room why ms s"
        by (rule notices_cong) (simp_all add: log_error_def)
      then show ?thesis
        using Some True Cons.IH [of ?s1] by (simp add: ws_send_def log_error_def)
    next
      case False
      let ?s1 = "s\<lparr>sent := sent s @ [(ws client, Out_room_deleted (room_roomId room) (Some why))]\<rparr>"
      have "notices room why ms ?s1 = notices room why ms s"
        by (rule notices_cong) simp_all
      then show ?thesis
        using Some False Cons.IH [of ?s1] by (simp add: ws_send_def)
    qed
  qed
qed

lemma room_delete_Some:
  "room_findUnique rid s = Some r \<Longrightarrow>
   room_delete rid s = Some (s\<lparr>rooms := filter (\<lambda>r. room_id r \<noteq> rid) (rooms s),
                               roomMembers := filter (\<lambda>m. member_roomId m \<noteq> rid) (roomMembers s)\<rparr>)"
  by (simp add: room_delete_def)

lemma room_findUnique_frame: "rooms s' = rooms s \<Longrightarrow> room_findUnique rid s' = room_findUnique rid s"
  by (simp add: room_findUnique_def)

lemma dissolve_Some:
  assumes "room_findUnique (room_id room) s = Some r"
  shows "\<exists>s'. dissolve room member why s = Some s' \<and>
           clients s' = clients s \<and> broken s' = broken s \<and>
           rooms s' = filter (\<lambda>r. room_id r \<noteq> room_id room) (rooms s) \<and>
           roomMembers s' = filter (\<lambda>m. member_roomId m \<noteq> room_id room) (roomMembers s) \<and>
           sent s' = sent s @ notices room why
             (roomMember_findMany_not (room_id room) (member_userId member) s) s"
proof -
  let ?n = "notify_others room why (roomMember_findMany_not (room_id room) (member_userId member) s) s"
  have "room_findUnique (room_id room) ?n = Some r"
    using assms notify_others_frame room_findUnique_frame by metis
  from room_delete_Some [OF this] show ?thesis
    using notify_others_frame [of room why _ s] by (simp add: dissolve_def)
qed

lemma quiet_refl [simp]: "quiet s s"
  by (simp add: quiet_def)

lemma quiet_trans: "quiet s s1 \<Longrightarrow> quiet s1 s2 \<Longrightarrow> quiet s s2"
  by (fastforce simp: quiet_def)

lemma roomMember_delete_quiet: "roomMember_delete rid uid s = Some s1 \<Longrightarrow> quiet s s1"
  by (auto simp: roomMember_delete_def quiet_def split: option.splits)

lemma quiet_clients_delete: "quiet s s1 \<Longrightarrow> quiet s (clients_delete k s1)"
  by (simp add: quiet_def clients_delete_def)

lemma probe_member_quiet: "probe_member now room member s = Normal s1 \<Longrightarrow> quiet s s1"
  by (auto simp: probe_member_def Let_def ws_send_def clients_set_def log_error_def quiet_def
      roomMember_delete_def
      split: option.splits if_splits)

lemma check_threshold_quiet: "check_threshold m room member s = Normal s1 \<Longrightarrow> quiet s s1"
  by (auto simp: check_threshold_def Let_def quiet_clients_delete roomMember_delete_quiet
      split: option.splits if_splits)

lemma process_member_quiet: "process_member now m room member s = Normal s1 \<Longrightarrow> quiet s s1"
  by (auto simp: process_member_def split: outcome.splits
      intro: quiet_trans probe_member_quiet check_threshold_quiet)

lemma member_loop_quiet: "member_loop now m room ms s = Normal s1 \<Longrightarrow> quiet s s1"
proof (induction ms arbitrary: s)
  case Nil
  then show ?case by simp
next
  case (Cons a ms)
  then show ?case
    by (auto split: outcome.splits intro: quiet_trans process_member_quiet)
qed

lemma calm_refl [simp]: "calm s s"
  by (simp add: calm_def)

lemma calm_trans: "calm s s1 \<Longrightarrow> calm s1 s2 \<Longrightarrow> calm s s2"
  by (fastforce simp: calm_def)

lemma quiet_calm: "quiet s s' \<Longrightarrow> calm s s'"
  by (auto simp: quiet_def calm_def)

lemma calm_sent: "sent s' = sent s \<Longrightarrow> calm s s'"
  by (simp add: calm_def)

lemma notify_vanished_calm: "calm s (notify_vanished room ms s)"
proof (induction ms arbitrary: s)
  case Nil
  show ?case by simp
next
  case (Cons m ms)
  show ?case
  proof (cases "clients_get s (clientId (room_roomId room) (member_userId m))")
    case None
    then show ?thesis using Cons.IH [of s] by simp
  next
    case (Some client)
    show ?thesis
    proof (cases "ws client \<in> broken s")
      case True
      let ?s1 = "clients_delete (clientId (room_roomId room) (member_userId m))
                   (log_error (notify_user_failed (member_userId m)) s)"
      have "calm s ?s1" by (rule calm_sent) (simp add: clients_delete_def log_error_def)
      from calm_trans [OF this Cons.IH [of ?s1]] show ?thesis
        using Some True by (simp add: ws_send_def)
    next
      case False
      let ?s1 = "clients_delete (clientId (room_roomId room) (member_userId m))
                   (s\<lparr>sent := sent s @ [(ws client, Out_room_deleted (room_roomId room) None)]\<rparr>)"
      have "calm s ?s1" by (simp add: calm_def clients_delete_def)
      from calm_trans [OF this Cons.IH [of ?s1]] show ?thesis
        using Some False by (simp add: ws_send_def)
    qed
  qed
qed

lemma room_delete_calm: "room_delete rid s = Some s1 \<Longrightarrow> calm s s1"
  by (auto simp: room_delete_def calm_def split: option.splits)

lemma process_room_calm: "process_room now m room s = Normal s1 \<Longrightarrow> calm s s1"
  by (auto simp: process_room_def Let_def notify_vanished_calm
      split: option.splits outcome.splits if_splits
      dest!: member_loop_quiet room_delete_calm intro: quiet_calm calm_trans)

lemma room_loop_calm: "room_loop now m rs s = Normal s1 \<Longrightarrow> calm s s1"
proof (induction rs arbitrary: s)
  case Nil
  then show ?case by simp
next
  case (Cons a rs)
  then show ?case
    by (auto split: outcome.splits intro: calm_trans process_room_calm)
qed

lemma member_loop_append:
  "member_loop now m room (xs @ ys) s =
     (case member_loop now m room xs s of
        Normal s1 \<Rightarrow> member_loop now m room ys s1
      | Returned s1 \<Rightarrow> Returned s1
      | Thrown s1 \<Rightarrow> Thrown s1)"
  by (induction xs arbitrary: s) (simp_all split: outcome.splits)

lemma room_loop_append:
  "room_loop now m (xs @ ys) s =
     (case room_loop now m xs s of
        Normal s1 \<Rightarrow> room_loop now m ys s1
      | Returned s1 \<Rightarrow> Returned s1
      | Thrown s1 \<Rightarrow> Thrown s1)"
  by (induction xs arbitrary: s) (simp_all split: outcome.splits)

lemma owner_absent_step:
  assumes "room_findUnique (room_id room) s = Some r"
    and "member_userId member = room_ownerId room"
    and "clients_get s (clientId (room_roomId room) (room_ownerId room)) = None"
  shows "\<exists>s'. process_member now m room member s = Returned s' \<and>
           clients s' = clients s \<and>
           rooms s' = filter (\<lambda>r. room_id r \<noteq> room_id room) (rooms s) \<and>
           roomMembers s' = filter (\<lambda>m. member_roomId m \<noteq> room_id room) (roomMembers s) \<and>
           sent s' = sent s @ notices room owner_disconnected
             (roomMember_findMany_not (room_id room) (room_ownerId room) s) s"
  using dissolve_Some [OF assms(1), of member owner_disconnected] assms(2,3)
  by (auto simp: process_member_def probe_member_def)

lemmas sweep_defs = heartbeatCheckInterval_def process_room_def process_member_def
  probe_member_def check_threshold_def dissolve_def room_delete_def roomMember_delete_def
  room_findUnique_def roomMember_findMany_def roomMember_findMany_not_def
  roomMember_findUnique_def roomMember_count_def room_findMany_active_def clients_get_def
  clients_set_def clients_delete_def ws_send_def log_error_def clientId_def Let_def

lemmas example_defs = room1_def room2_def memb_def mk_client_def st_absent_def st_absent_probed_def

text \<open>
  C1. Take any cycle and any active room. When the sweeper reaches the room's owner (the
  rooms before it and the members before the owner were processed, the store still had
  the room) and the registry has no entry for the owner, the cycle ends with the room
  and its memberships deleted from the store, and the \<open>room_deleted\<close> frames with a reason
  that the whole cycle wrote are exactly those of \<open>notices\<close>: one frame with reason
  \<open>owner_disconnected\<close> for each other membership row whose registry entry exists and
  whose transport takes the frame, and no other.
\<close>

theorem owner_absent_dissolved:
  assumes "room_findMany_active s0 = rs1 @ room # rs2"
    and "room_loop now MAX_FAILED_HEARTBEATS rs1 s0 = Normal s1"
    and "room_findUnique (room_id room) s1 = Some r"
    and "roomMember_findMany (room_id room) s1 = ms1 @ member # ms2"
    and "member_loop now MAX_FAILED_HEARTBEATS room ms1 s1 = Normal s2"
    and "member_userId member = room_ownerId room"
    and "clients_get s2 (clientId (room_roomId room) (room_ownerId room)) = None"
  shows "room_findUnique (room_id room) (heartbeatCheckInterval now MAX_FAILED_HEARTBEATS s0) = None \<and>
         roomMember_findMany (room_id room) (heartbeatCheckInterval now MAX_FAILED_HEARTBEATS s0) = [] \<and>
         (\<exists>ps. sent (heartbeatCheckInterval now MAX_FAILED_HEARTBEATS s0) =
                 sent s0 @ ps @ notices room owner_disconnected
                   (roomMember_findMany_not (room_id room) (room_ownerId room) s2) s2 \<and>
               (\<forall>x\<in>set ps. \<forall>rid why. snd x \<noteq> Out_room_deleted rid (Some why)))"
proof -
  have q: "quiet s1 s2" by (rule member_loop_quiet [OF assms(5)])
  then have "room_findUnique (room_id room) s2 = Some r"
    using assms(3) by (simp add: quiet_def room_findUnique_def)
  from owner_absent_step [OF this assms(6,7), of now MAX_FAILED_HEARTBEATS] obtain s3 where
    s3: "process_member now MAX_FAILED_HEARTBEATS room member s2 = Returned s3"
    and rooms3: "rooms s3 = filter (\<lambda>r. room_id r \<noteq> room_id room) (rooms s2)"
    and mem3: "roomMembers s3 = filter (\<lambda>m. member_roomId m \<noteq> room_id room) (roomMembers s2)"
    and sent3: "sent s3 = sent s2 @ notices room owner_disconnected
             (roomMember_findMany_not (room_id room) (room_ownerId room) s2) s2"
    by blast
  have "member_loop now MAX_FAILED_HEARTBEATS room (ms1 @ member # ms2) s1 = Returned s3"
    using assms(5) s3 by (simp add: member_loop_append)
  then have "process_room now MAX_FAILED_HEARTBEATS room s1 = Returned s3"
    using assms(3,4) by (simp add: process_room_def)
  then have "room_loop now MAX_FAILED_HEARTBEATS (rs1 @ room # rs2) s0 = Returned s3"
    using assms(2) by (simp add: room_loop_append)
  then have fin: "heartbeatCheckInterval now MAX_FAILED_HEARTBEATS s0 = s3"
    using assms(1) by (simp add: heartbeatCheckInterval_def)
  have "calm s0 s2"
    using calm_trans [OF room_loop_calm [OF assms(2)] quiet_calm [OF q]] .
  then obtain ps where "sent s2 = sent s0 @ ps"
    and "\<forall>x\<in>set ps. \<forall>rid why. snd x \<noteq> Out_room_deleted rid (Some why)"
    by (auto simp: calm_def)
  moreover have "room_findUnique (room_id room) s3 = None"
    by (simp add: room_findUnique_def rooms3 find_None_iff)
  moreover have "roomMember_findMany (room_id room) s3 = []"
    by (simp add: roomMember_findMany_def mem3 filter_empty_conv)
  ultimately show ?thesis
    using fin sent3 by auto
qed


theorem owner_absent_dissolved_witness:
  "room_findMany_active st_absent = [] @ room1 # [] \<and>
   room_loop 9 3 [] st_absent = Normal st_absent \<and>
   room_findUnique (room_id room1) st_absent = Some room1 \<and>
   roomMember_findMany (room_id room1) st_absent = [memb ''r1'' ''U2''] @ memb ''r1'' ''U1'' # [] \<and>
   member_loop 9 3 room1 [memb ''r1'' ''U2''] st_absent = Normal st_absent_probed \<and>
   member_userId (memb ''r1'' ''U1'') = room_ownerId room1 \<and>
   clients_get st_absent_probed (clientId (room_roomId room1) (room_ownerId room1)) = None \<and>
   room_findUnique (room_id room1) (heartbeatCheckInterval 9 3 st_absent) = None \<and>
   roomMember_findMany (room_id room1) (heartbeatCheckInterval 9 3 st_absent) = [] \<and>
   (\<exists>ps. sent (heartbeatCheckInterval 9 3 st_absent) =
       sent st_absent @ ps @ [(2, Out_room_deleted ''R1'' (Some owner_disconnected))] \<and>
     (\<forall>x\<in>set ps. \<forall>rid why. snd x \<noteq> Out_room_deleted rid (Some why)))"
proof -
  have h: "room_findMany_active st_absent = [] @ room1 # []"
    "room_loop 9 3 [] st_absent = Normal st_absent"
    "room_findUnique (room_id room1) st_absent = Some room1"
    "roomMember_findMany (room_id room1) st_absent = [memb ''r1'' ''U2''] @ memb ''r1'' ''U1'' # []"
    "member_loop 9 3 room1 [memb ''r1'' ''U2''] st_absent = Normal st_absent_probed"
    "member_userId (memb ''r1'' ''U1'') = room_ownerId room1"
    "clients_get st_absent_probed (clientId (room_roomId room1) (room_ownerId room1)) = None"
    by (simp_all add: sweep_defs example_defs)
  have n: "notices room1 owner_disconnected
      (roomMember_findMany_not (room_id room1) (room_ownerId room1) st_absent_probed) st_absent_probed
      = [(2, Out_room_deleted ''R1'' (Some owner_disconnected))]"
    by (simp add: sweep_defs example_defs)
  show ?thesis
    using owner_absent_dissolved [OF h] h unfolding n by blast
qed

section \<open>Broadcast\<close>

lemmas more_example_defs = st_two_rooms_def st_timeout_def st_broadcast_def conn_A_def st_probe_broken_def





text \<open>
  C6. The claim is that a \<open>send\<close> that raises for one recipient of a broadcast does not
  keep the frame from the remaining recipients. The \<open>forEach\<close> callback has no \<open>try\<close>
  of its own, so the first \<open>send\<close> that raises ends the traversal: with the entries of
  \<open>A\<close>, \<open>B\<close> and \<open>C\<close> in room \<open>R\<close> and the transport of \<open>B\<close> broken, a \<open>draw_event\<close> of
  \<open>A\<close> writes no frame at all, so \<open>C\<close>, whose transport is sound, gets nothing. The outer
  \<open>catch\<close> logs the error; the sender is not told.
\<close>

theorem broadcast_stops_at_failed_send:
  "clients_get st_broadcast ''R_C'' = Some (mk_client 3 ''C'' ''R'' 0) \<and>
   3 \<notin> broken st_broadcast \<and>
   on_message 9 conn_A (In_draw_event frame_in frame_out) st_broadcast =
     (conn_A, st_broadcast\<lparr>errors := [message_error]\<rparr>) \<and>
   sent (snd (on_message 9 conn_A (In_draw_event frame_in frame_out) st_broadcast)) = []"
  by (simp add: sweep_defs example_defs more_example_defs)

section \<open>Send failures\<close>

text \<open>
  C7, as stated, fails: a probe whose \<open>send\<close> raises leaves the entry in the registry,
  with its counter incremented.
\<close>

theorem failed_probe_keeps_entry:
  "clients_get st_probe_broken ''R1_U2'' = Some (mk_client 2 ''U2'' ''R1'' 0) \<and>
   2 \<in> broken st_probe_broken \<and>
   probe_member 9 room1 (memb ''r1'' ''U2'') st_probe_broken =
     Normal (st_probe_broken\<lparr>clients := [(''R1_U2'', mk_client 2 ''U2'' ''R1'' 1)],
                               errors := [probe_failed ''U2'' ''R1'']\<rparr>) \<and>
   clients_get (st_probe_broken\<lparr>clients := [(''R1_U2'', mk_client 2 ''U2'' ''R1'' 1)],
                                 errors := [probe_failed ''U2'' ''R1'']\<rparr>) ''R1_U2'' =
     Some (mk_client 2 ''U2'' ''R1'' 1)"
  by (simp add: sweep_defs example_defs more_example_defs)

text \<open>
  C7, amended. When the \<open>send\<close> to a member's transport raises: in the probe, the failure
  is logged, the entry stays with its failure counter incremented by 1, and the loop goes
  on with the threshold check of that member and then the remaining members; in the
  notification of a room that has vanished, the failure is logged, the entry is removed
  and the remaining members are notified; in the notification before a room is deleted,
  the failure is logged and the remaining members are notified.
\<close>

theorem send_failure_is_logged:
  assumes "clients_get s (clientId (room_roomId room) (member_userId member)) = Some client"
    and "ws client \<in> broken s"
  shows "probe_member now room member s =
           Normal (clients_set (clientId (room_roomId room) (member_userId member))
                     (client\<lparr>failedHeartbeats := failedHeartbeats client + 1\<rparr>)
                     (log_error (probe_failed (member_userId member) (room_roomId room)) s)) \<and>
         member_loop now MAX_FAILED_HEARTBEATS room (member # ms) s =
           (case check_threshold MAX_FAILED_HEARTBEATS room member
                   (clients_set (clientId (room_roomId room) (member_userId member))
                     (client\<lparr>failedHeartbeats := failedHeartbeats client + 1\<rparr>)
                     (log_error (probe_failed (member_userId member) (room_roomId room)) s)) of
              Normal s1 \<Rightarrow> member_loop now MAX_FAILED_HEARTBEATS room ms s1
            | Returned s1 \<Rightarrow> Returned s1
            | Thrown s1 \<Rightarrow> Thrown s1) \<and>
         notify_vanished room (member # ms) s =
           notify_vanished room ms
             (clients_delete (clientId (room_roomId room) (member_userId member))
                (log_error (notify_user_failed (member_userId member)) s)) \<and>
         notify_others room why (member # ms) s =
           notify_others room why ms (log_error (notify_member_failed (member_userId member)) s)"
  using assms by (simp add: process_member_def probe_member_def ws_send_def)

theorem send_failure_is_logged_witness:
  "clients_get st_probe_broken (clientId (room_roomId room1) (member_userId (memb ''r1'' ''U2''))) =
     Some (mk_client 2 ''U2'' ''R1'' 0) \<and>
   ws (mk_client 2 ''U2'' ''R1'' 0) \<in> broken st_probe_broken \<and>
   probe_member 9 room1 (memb ''r1'' ''U2'') st_probe_broken =
     Normal (st_probe_broken\<lparr>clients := [(''R1_U2'', mk_client 2 ''U2'' ''R1'' 1)],
                               errors := [probe_failed ''U2'' ''R1'']\<rparr>) \<and>
   member_loop 9 3 room1 [memb ''r1'' ''U2'', memb ''r1'' ''U1''] st_probe_broken =
     Returned (st_probe_broken\<lparr>clients := [(''R1_U2'', mk_client 2 ''U2'' ''R1'' 1)],
        rooms := [], roomMembers := [],
        errors := [probe_failed ''U2'' ''R1'', notify_member_failed ''U2'']\<rparr>) \<and>
   notify_vanished room1 [memb ''r1'' ''U2''] st_probe_broken =
     st_probe_broken\<lparr>clients := [], errors := [notify_user_failed ''U2'']\<rparr> \<and>
   notify_others room1 owner_timeout [memb ''r1'' ''U2''] st_probe_broken =
     st_probe_broken\<lparr>errors := [notify_member_failed ''U2'']\<rparr>"
  using send_failure_is_logged [of st_probe_broken room1 "memb ''r1'' ''U2''"
      "mk_client 2 ''U2'' ''R1'' 0" 9 3 "[memb ''r1'' ''U1'']" owner_timeout]
    send_failure_is_logged [of st_probe_broken room1 "memb ''r1'' ''U2''"
      "mk_client 2 ''U2'' ''R1'' 0" 9 3 "[]" owner_timeout]
  by (simp add: sweep_defs example_defs more_example_defs)

section \<open>What ends a cycle, and what a dissolved room leaves behind\<close>

text \<open>
  C9. The claim is that after a room is dissolved the remaining active rooms of the cycle
  are still processed. The dissolving branches end with \<open>return\<close>, which leaves the whole
  callback: with \<open>room1\<close> (owner not connected) listed before \<open>room2\<close> (owner connected),
  the cycle deletes \<open>room1\<close> and stops; the owner of \<open>room2\<close> gets no probe and its
  counter is not touched, although processing \<open>room2\<close> would have sent one.
\<close>

theorem return_skips_remaining_rooms:
  "room_findMany_active st_two_rooms = [room1, room2] \<and>
   heartbeatCheckInterval 9 3 st_two_rooms =
     st_two_rooms\<lparr>rooms := [room2], roomMembers := [memb ''r2'' ''U3'']\<rparr> \<and>
   process_room 9 3 room2 st_two_rooms =
     Normal (st_two_rooms\<lparr>clients := [(''R2_U3'', mk_client 3 ''U3'' ''R2'' 1)],
                          sent := [(3, Out_heartbeat 9)]\<rparr>)"
  by (simp add: sweep_defs example_defs more_example_defs)

text \<open>
  C2. The claim is that after a room is dissolved no registry entry remains for any of
  its participants. In the scenario of the specification (owner \<open>U1\<close> at two missed
  probes, threshold 3, member \<open>U2\<close> connected) the cycle deletes the room and its
  memberships, notifies \<open>U2\<close> and deletes the owner's entry, but the entry of \<open>U2\<close> is
  still in the registry; the same holds when the owner is not connected at all.
\<close>

theorem dissolved_room_keeps_member_entries:
  "heartbeatCheckInterval 9 3 st_timeout =
     \<lparr>clients = [(''R1_U2'', mk_client 2 ''U2'' ''R1'' 0)], rooms = [], roomMembers = [],
      broken = {}, sent = [(1, Out_heartbeat 9), (2, Out_room_deleted ''R1'' (Some owner_timeout))],
      errors = []\<rparr> \<and>
   heartbeatCheckInterval 9 3 st_absent =
     \<lparr>clients = [(''R1_U2'', mk_client 2 ''U2'' ''R1'' 1)], rooms = [], roomMembers = [],
      broken = {}, sent = [(2, Out_heartbeat 9), (2, Out_room_deleted ''R1'' (Some owner_disconnected))],
      errors = []\<rparr> \<and>
   clients_get (heartbeatCheckInterval 9 3 st_timeout) ''R1_U2'' = Some (mk_client 2 ''U2'' ''R1'' 0) \<and>
   clients_get (heartbeatCheckInterval 9 3 st_absent) ''R1_U2'' = Some (mk_client 2 ''U2'' ''R1'' 1)"
  by (simp add: sweep_defs example_defs more_example_defs)

section \<open>The failure counter\<close>

lemma state_of_simps [simp]:
  "state_of (Normal s) = s" "state_of (Returned s) = s" "state_of (Thrown s) = s"
  by (simp_all add: state_of_def)

lemma grows_refl [simp]: "grows s s"
proof -
  have "\<And>c::ClientConnection. c = c\<lparr>failedHeartbeats := failedHeartbeats c + 0\<rparr>" by simp
  then show ?thesis unfolding grows_def by blast
qed

lemma grows_trans:
  assumes "grows s s1" and "grows s1 s2"
  shows "grows s s2"
  unfolding grows_def
proof (intro allI impI)
  fix k c2
  assume "clients_get s2 k = Some c2"
  with assms(2) obtain c1 n1 where c1: "clients_get s1 k = Some c1"
    and e1: "c2 = c1\<lparr>failedHeartbeats := failedHeartbeats c1 + n1\<rparr>"
    unfolding grows_def by blast
  from assms(1) c1 obtain c0 n0 where c0: "clients_get s k = Some c0"
    and e0: "c1 = c0\<lparr>failedHeartbeats := failedHeartbeats c0 + n0\<rparr>"
    unfolding grows_def by blast
  have "c2 = c0\<lparr>failedHeartbeats := failedHeartbeats c0 + (n0 + n1)\<rparr>"
    by (simp add: e1 e0 add.assoc)
  with c0 show "\<exists>c n. clients_get s k = Some c \<and> c2 = c\<lparr>failedHeartbeats := failedHeartbeats c + n\<rparr>"
    by blast
qed

lemma clients_get_same: "clients s' = clients s \<Longrightarrow> clients_get s' k = clients_get s k"
  by (simp add: clients_get_def)

lemma grows_same: "clients s' = clients s \<Longrightarrow> grows s s'"
  using grows_refl [of s] unfolding grows_def by (simp only: clients_get_same [of s' s])

lemma grows_delete: "grows s s1 \<Longrightarrow> grows s (clients_delete k s1)"
  by (simp add: grows_def)

lemma grows_count:
  assumes "clients_get s k = Some c" and "clients s1 = clients s"
  shows "grows s (clients_set k (c\<lparr>failedHeartbeats := failedHeartbeats c + 1\<rparr>) s1)"
  unfolding grows_def
proof (intro allI impI)
  fix k' c'
  assume a: "clients_get (clients_set k (c\<lparr>failedHeartbeats := failedHeartbeats c + 1\<rparr>) s1) k' = Some c'"
  show "\<exists>c n. clients_get s k' = Some c \<and> c' = c\<lparr>failedHeartbeats := failedHeartbeats c + n\<rparr>"
  proof (cases "k' = k")
    case True
    with a have "c' = c\<lparr>failedHeartbeats := failedHeartbeats c + 1\<rparr>" by simp
    with assms(1) True show ?thesis by blast
  next
    case False
    with a have "clients_get s1 k' = Some c'" by simp
    then have "clients_get s k' = Some c'" by (simp only: clients_get_same [OF assms(2)])
    moreover have "c' = c'\<lparr>failedHeartbeats := failedHeartbeats c' + 0\<rparr>" by simp
    ultimately show ?thesis by blast
  qed
qed

lemma notify_others_clients [simp]: "clients (notify_others room why ms s) = clients s"
  using notify_others_frame by simp

lemma room_delete_clients: "room_delete rid s = Some s1 \<Longrightarrow> clients s1 = clients s"
  by (auto simp: room_delete_def split: option.splits)

lemma roomMember_delete_clients: "roomMember_delete rid uid s = Some s1 \<Longrightarrow> clients s1 = clients s"
  by (auto simp: roomMember_delete_def split: option.splits)

lemma dissolve_clients: "dissolve room member why s = Some s1 \<Longrightarrow> clients s1 = clients s"
  by (auto simp: dissolve_def dest: room_delete_clients)

lemma probe_member_live:
  assumes "clients_get s (clientId (room_roomId room) (member_userId member)) = Some cl"
  shows "probe_member now room member s =
     Normal (clients_set (clientId (room_roomId room) (member_userId member))
               (cl\<lparr>failedHeartbeats := failedHeartbeats cl + 1\<rparr>)
               (if ws cl \<in> broken s
                then log_error (probe_failed (member_userId member) (room_roomId room)) s
                else s\<lparr>sent := sent s @ [(ws cl, Out_heartbeat now)]\<rparr>))"
  using assms by (simp add: probe_member_def ws_send_def)

lemma probe_member_absent:
  assumes "clients_get s (clientId (room_roomId room) (member_userId member)) = None"
  shows "clients (state_of (probe_member now room member s)) = clients s"
proof (cases "member_userId member = room_ownerId room")
  case True
  show ?thesis
  proof (cases "dissolve room member owner_disconnected s")
    case None
    then show ?thesis using assms True by (simp add: probe_member_def)
  next
    case (Some s1)
    then show ?thesis using assms True dissolve_clients [OF Some] by (simp add: probe_member_def)
  qed
next
  case False
  show ?thesis
  proof (cases "roomMember_delete (room_id room) (member_userId member) s")
    case None
    then show ?thesis using assms False by (simp add: probe_member_def split: option.splits)
  next
    case (Some s1)
    then show ?thesis
      using assms False roomMember_delete_clients [OF Some]
      by (simp add: probe_member_def split: option.splits)
  qed
qed

lemma probe_member_grows: "grows s (state_of (probe_member now room member s))"
proof (cases "clients_get s (clientId (room_roomId room) (member_userId member))")
  case None
  from probe_member_absent [OF this] show ?thesis by (rule grows_same)
next
  case (Some cl)
  have "grows s (clients_set (clientId (room_roomId room) (member_userId member))
               (cl\<lparr>failedHeartbeats := failedHeartbeats cl + 1\<rparr>)
               (if ws cl \<in> broken s
                then log_error (probe_failed (member_userId member) (room_roomId room)) s
                else s\<lparr>sent := sent s @ [(ws cl, Out_heartbeat now)]\<rparr>))"
    by (rule grows_count [OF Some]) (simp add: log_error_def)
  then show ?thesis by (simp add: probe_member_live [OF Some])
qed

lemma check_threshold_clients:
  "clients (state_of (check_threshold m room member s)) = clients s \<or>
   clients (state_of (check_threshold m room member s)) =
     AList.delete (clientId (room_roomId room) (member_userId member)) (clients s)"
  by (auto simp: check_threshold_def Let_def clients_delete_def
      dest!: dissolve_clients roomMember_delete_clients split: option.splits)

lemma check_threshold_grows: "grows s (state_of (check_threshold m room member s))"
proof -
  let ?s' = "state_of (check_threshold m room member s)"
  let ?k = "clientId (room_roomId room) (member_userId member)"
  from check_threshold_clients [of m room member s] show ?thesis
  proof
    assume "clients ?s' = clients s"
    then show ?thesis by (rule grows_same)
  next
    assume "clients ?s' = AList.delete ?k (clients s)"
    then have "clients ?s' = clients (clients_delete ?k s)" by (simp add: clients_delete_def)
    from grows_trans [OF grows_delete [OF grows_refl] grows_same [OF this]] show ?thesis .
  qed
qed

lemma process_member_grows: "grows s (state_of (process_member now m room member s))"
proof (cases "probe_member now room member s")
  case (Normal s1)
  then have "grows s s1" using probe_member_grows [of s now room member] by simp
  from grows_trans [OF this check_threshold_grows [of s1 m room member]] show ?thesis
    using Normal by (simp add: process_member_def)
next
  case (Returned s1)
  then show ?thesis using probe_member_grows [of s now room member] by (simp add: process_member_def)
next
  case (Thrown s1)
  then show ?thesis using probe_member_grows [of s now room member] by (simp add: process_member_def)
qed

lemma member_loop_grows: "grows s (state_of (member_loop now m room ms s))"
proof (induction ms arbitrary: s)
  case Nil
  show ?case by simp
next
  case (Cons a ms)
  show ?case
  proof (cases "process_member now m room a s")
    case (Normal s1)
    then have "grows s s1" using process_member_grows [of s now m room a] by simp
    from grows_trans [OF this Cons.IH [of s1]] show ?thesis using Normal by simp
  next
    case (Returned s1)
    then show ?thesis using process_member_grows [of s now m room a] by simp
  next
    case (Thrown s1)
    then show ?thesis using process_member_grows [of s now m room a] by simp
  qed
qed

lemma notify_vanished_grows: "grows s (notify_vanished room ms s)"
proof (induction ms arbitrary: s)
  case Nil
  show ?case by simp
next
  case (Cons a ms)
  show ?case
  proof (cases "clients_get s (clientId (room_roomId room) (member_userId a))")
    case None
    then show ?thesis using Cons.IH [of s] by simp
  next
    case (Some cl)
    let ?k = "clientId (room_roomId room) (member_userId a)"
    show ?thesis
    proof (cases "ws cl \<in> broken s")
      case True
      let ?s1 = "clients_delete ?k (log_error (notify_user_failed (member_userId a)) s)"
      have "grows s ?s1" by (rule grows_delete) (simp add: grows_same log_error_def)
      from grows_trans [OF this Cons.IH [of ?s1]] show ?thesis
        using Some True by (simp add: ws_send_def)
    next
      case False
      let ?s1 = "clients_delete ?k (s\<lparr>sent := sent s @ [(ws cl, Out_room_deleted (room_roomId room) None)]\<rparr>)"
      have "grows s ?s1" by (rule grows_delete) (simp add: grows_same)
      from grows_trans [OF this Cons.IH [of ?s1]] show ?thesis
        using Some False by (simp add: ws_send_def)
    qed
  qed
qed

lemma process_room_grows: "grows s (state_of (process_room now m room s))"
proof (cases "room_findUnique (room_id room) s")
  case None
  then show ?thesis by (simp add: process_room_def notify_vanished_grows)
next
  case (Some r)
  show ?thesis
  proof (cases "member_loop now m room (roomMember_findMany (room_id room) s) s")
    case (Normal s1)
    then have g: "grows s s1"
      using member_loop_grows [of s now m room "roomMember_findMany (room_id room) s"] by simp
    show ?thesis
    proof (cases "room_delete (room_id room) s1")
      case None
      then show ?thesis using Some Normal g by (simp add: process_room_def)
    next
      case (Some s2)
      then have "grows s1 s2" by (simp add: grows_same room_delete_clients)
      from grows_trans [OF g this] show ?thesis
        using \<open>room_findUnique (room_id room) s = Some r\<close> Normal Some g by (simp add: process_room_def)
    qed
  next
    case (Returned s1)
    then show ?thesis
      using Some member_loop_grows [of s now m room "roomMember_findMany (room_id room) s"]
      by (simp add: process_room_def)
  next
    case (Thrown s1)
    then show ?thesis
      using Some member_loop_grows [of s now m room "roomMember_findMany (room_id room) s"]
      by (simp add: process_room_def)
  qed
qed

lemma room_loop_grows: "grows s (state_of (room_loop now m rs s))"
proof (induction rs arbitrary: s)
  case Nil
  show ?case by simp
next
  case (Cons a rs)
  show ?case
  proof (cases "process_room now m a s")
    case (Normal s1)
    then have "grows s s1" using process_room_grows [of s now m a] by simp
    from grows_trans [OF this Cons.IH [of s1]] show ?thesis using Normal by simp
  next
    case (Returned s1)
    then show ?thesis using process_room_grows [of s now m a] by simp
  next
    case (Thrown s1)
    then show ?thesis using process_room_grows [of s now m a] by simp
  qed
qed

lemma sweep_grows: "grows s (heartbeatCheckInterval now m s)"
proof (cases "room_loop now m (room_findMany_active s) s")
  case (Normal s1)
  then show ?thesis
    using room_loop_grows [of s now m "room_findMany_active s"] by (simp add: heartbeatCheckInterval_def)
next
  case (Returned s1)
  then show ?thesis
    using room_loop_grows [of s now m "room_findMany_active s"] by (simp add: heartbeatCheckInterval_def)
next
  case (Thrown s1)
  then have "grows s s1" using room_loop_grows [of s now m "room_findMany_active s"] by simp
  then show ?thesis using Thrown by (simp add: heartbeatCheckInterval_def grows_def)
qed

lemma clientId_inject [simp]: "clientId r u = clientId r u' \<longleftrightarrow> u = u'"
  by (simp add: clientId_def)

lemma is_member_iff:
  "is_member rid uid s \<longleftrightarrow> (\<exists>x\<in>set (roomMembers s). member_roomId x = rid \<and> member_userId x = uid)"
  by (auto simp: is_member_def roomMember_findUnique_def find_None_iff)

lemma roomMember_delete_Some:
  assumes "is_member rid uid s"
  shows "roomMember_delete rid uid s =
     Some (s\<lparr>roomMembers := filter (\<lambda>m. \<not> (member_roomId m = rid \<and> member_userId m = uid)) (roomMembers s)\<rparr>)"
  using assms by (auto simp: is_member_def roomMember_delete_def)

lemma filter_not_member:
  assumes "\<not> is_member rid uid s"
  shows "filter (\<lambda>m. \<not> (member_roomId m = rid \<and> member_userId m = uid)) (roomMembers s) = roomMembers s"
  using assms by (auto simp: is_member_iff filter_id_conv)

lemma without_member_fields [simp]:
  "clients (without_member rid uid s) = clients s"
  "rooms (without_member rid uid s) = rooms s"
  "clients_get (without_member rid uid s) k = clients_get s k"
  by (simp_all add: without_member_def clients_get_def)


lemma counted_fields:
  "rooms (clients_set k c (if b then log_error e s else s\<lparr>sent := x\<rparr>)) = rooms s"
  "roomMembers (clients_set k c (if b then log_error e s else s\<lparr>sent := x\<rparr>)) = roomMembers s"
  by (simp_all add: clients_set_def log_error_def)

lemma clients_get_counted:
  "clients_get (clients_set k c (if b then log_error e s else s\<lparr>sent := x\<rparr>)) k' =
     (if k' = k then Some c else clients_get s k')"
  by (simp add: clients_get_def clients_set_def log_error_def update_conv')

lemma probed_fields [simp]:
  "rooms (probed now room member cl s) = rooms s"
  "roomMembers (probed now room member cl s) = roomMembers s"
  "broken (probed now room member cl s) = broken s"
  "clients_get (probed now room member cl s) k =
     (if k = clientId (room_roomId room) (member_userId member)
      then Some (cl\<lparr>failedHeartbeats := failedHeartbeats cl + 1\<rparr>) else clients_get s k)"
  by (simp_all add: probed_def clients_set_def log_error_def clients_get_def update_conv')

lemma probed_store [simp]:
  "room_findUnique rid (probed now room member cl s) = room_findUnique rid s"
  "is_member rid uid (probed now room member cl s) = is_member rid uid s"
  by (simp_all add: room_findUnique_def is_member_iff)

lemma process_member_live:
  assumes "clients_get s (clientId (room_roomId room) (member_userId member)) = Some cl"
  shows "process_member now m room member s = check_threshold m room member (probed now room member cl s)"
  by (simp add: process_member_def probe_member_live [OF assms] probed_def)


lemma check_threshold_absent:
  assumes "clients_get s (clientId (room_roomId room) (member_userId member)) = None"
  shows "check_threshold m room member s = Normal s"
  using assms by (simp add: check_threshold_def)



lemma process_member_absent_other:
  assumes "clients_get s (clientId (room_roomId room) (member_userId member)) = None"
    and "member_userId member \<noteq> room_ownerId room"
  shows "process_member now m room member s =
           Normal (without_member (room_id room) (member_userId member) s)"
proof (cases "is_member (room_id room) (member_userId member) s")
  case True
  then have "roomMember_findUnique (room_id room) (member_userId member) s \<noteq> None"
    by (simp add: is_member_def)
  then have "probe_member now room member s =
      Normal (without_member (room_id room) (member_userId member) s)"
    using assms roomMember_delete_Some [OF True]
    by (auto simp: probe_member_def without_member_def)
  then show ?thesis
    using assms(1) by (simp add: process_member_def check_threshold_absent)
next
  case False
  then have "roomMember_findUnique (room_id room) (member_userId member) s = None"
    by (simp add: is_member_def)
  then have "probe_member now room member s = Normal s"
    using assms by (simp add: probe_member_def)
  moreover have "without_member (room_id room) (member_userId member) s = s"
    unfolding without_member_def filter_not_member [OF False] by simp
  ultimately show ?thesis
    using assms(1) by (simp add: process_member_def check_threshold_absent)
qed

lemma broadcast_clients: "clients (state_of (broadcast cs rid uid d s)) = clients s"
proof (induction cs arbitrary: s)
  case Nil
  show ?case by simp
next
  case (Cons c cs)
  show ?case
  proof (cases "roomId c = rid \<and> Some (userId c) \<noteq> uid")
    case True
    show ?thesis
    proof (cases "ws c \<in> broken s")
      case b: True
      then show ?thesis using True by (simp add: ws_send_def)
    next
      case False
      then show ?thesis
        using True Cons.IH [of "s\<lparr>sent := sent s @ [(ws c, Out_draw_event d)]\<rparr>"]
        by (simp add: ws_send_def)
    qed
  next
    case False
    then show ?thesis using Cons.IH [of s] by auto
  qed
qed

lemma broadcast_store:
  "rooms (state_of (broadcast cs rid uid d s)) = rooms s \<and>
   roomMembers (state_of (broadcast cs rid uid d s)) = roomMembers s"
proof (induction cs arbitrary: s)
  case Nil
  show ?case by simp
next
  case (Cons c cs)
  show ?case
  proof (cases "roomId c = rid \<and> Some (userId c) \<noteq> uid")
    case True
    show ?thesis
    proof (cases "ws c \<in> broken s")
      case b: True
      then show ?thesis using True by (simp add: ws_send_def)
    next
      case False
      then show ?thesis
        using True Cons.IH [of "s\<lparr>sent := sent s @ [(ws c, Out_draw_event d)]\<rparr>"]
        by (simp add: ws_send_def)
    qed
  next
    case False
    then show ?thesis using Cons.IH [of s] by auto
  qed
qed

lemma draw_event_fields:
  "clients (snd (on_message now c (In_draw_event msg d) s)) = clients s \<and>
   rooms (snd (on_message now c (In_draw_event msg d) s)) = rooms s \<and>
   roomMembers (snd (on_message now c (In_draw_event msg d) s)) = roomMembers s"
proof (cases "conn_roomId c")
  case None
  then show ?thesis by simp
next
  case (Some rid)
  show ?thesis
  proof (cases "rid = []")
    case True
    then show ?thesis using Some by simp
  next
    case False
    let ?r = "broadcast (map snd (clients s)) rid (conn_userId c) d s"
    have "clients (state_of ?r) = clients s \<and> rooms (state_of ?r) = rooms s \<and>
          roomMembers (state_of ?r) = roomMembers s"
      using broadcast_clients broadcast_store by simp
    then show ?thesis
      using Some False by (cases ?r) (simp_all add: log_error_def)
  qed
qed

lemma catch_message_store [simp]:
  "rooms (catch_message (ws_send w x s) s) = rooms s"
  "roomMembers (catch_message (ws_send w x s) s) = roomMembers s"
  by (simp_all add: catch_message_def ws_send_def log_error_def)

lemma clients_set_store [simp]:
  "rooms (clients_set k v s) = rooms s" "roomMembers (clients_set k v s) = roomMembers s"
  by (simp_all add: clients_set_def)



lemma on_message_reset:
  assumes "clients_get (snd (on_message now c f s)) k = Some c'"
    and "failedHeartbeats c' = 0"
  shows "clients_get s k = Some c' \<or>
         (\<exists>uid rid. uid \<noteq> [] \<and> rid \<noteq> [] \<and> k = clientId rid uid \<and>
            (f = In_join (Some uid) (Some rid) \<or>
             (f = In_heartbeat \<and> conn_userId c = Some uid \<and> conn_roomId c = Some rid)))"
proof (cases f)
  case (In_draw_event msg d)
  then show ?thesis using assms(1) draw_event_fields [of now c msg d s] by (simp add: clients_get_def)
qed (use assms in \<open>auto simp: Let_def split: option.splits if_splits\<close>)

lemma heartbeat_resets:
  assumes "conn_userId c = Some uid" and "conn_roomId c = Some rid" and "uid \<noteq> []" and "rid \<noteq> []"
    and "clients_get s (clientId rid uid) = Some cl"
  shows "clients_get (snd (on_message now c In_heartbeat s)) (clientId rid uid) =
           Some (cl\<lparr>failedHeartbeats := 0, lastHeartbeat := now\<rparr>)"
  using assms by (simp add: Let_def)




lemmas all_example_defs = example_defs more_example_defs conn_U1_def

section \<open>From one member to the end of the cycle\<close>

text \<open>
  A cycle runs on from the loop body of a member: whatever was written stays written
  (\<open>extends\<close>) and entries are only deleted or counted up (\<open>grows\<close>).
\<close>

lemma extends_refl [simp]: "extends s s"
  by (simp add: extends_def)

lemma extends_trans: "extends s s1 \<Longrightarrow> extends s1 s2 \<Longrightarrow> extends s s2"
  by (auto simp: extends_def)

lemma extends_same: "sent s' = sent s \<Longrightarrow> extends s s'"
  by (simp add: extends_def)

lemma room_delete_sent: "room_delete rid s = Some s1 \<Longrightarrow> sent s1 = sent s"
  by (auto simp: room_delete_def split: option.splits)

lemma roomMember_delete_sent: "roomMember_delete rid uid s = Some s1 \<Longrightarrow> sent s1 = sent s"
  by (auto simp: roomMember_delete_def split: option.splits)

lemma notify_others_extends: "extends s (notify_others room why ms s)"
  using notify_others_frame [of room why ms s] by (simp add: extends_def)

lemma dissolve_extends: "dissolve room member why s = Some s1 \<Longrightarrow> extends s s1"
  using notify_others_extends by (auto simp: dissolve_def extends_def dest!: room_delete_sent)

lemma extends_delete: "extends s s1 \<Longrightarrow> extends s (clients_delete k s1)"
  by (simp add: extends_def clients_delete_def)

lemma probe_member_extends: "extends s (state_of (probe_member now room member s))"
proof (cases "clients_get s (clientId (room_roomId room) (member_userId member))")
  case (Some cl)
  show ?thesis
    by (simp add: probe_member_live [OF Some] extends_def clients_set_def log_error_def)
next
  case None
  show ?thesis
  proof (cases "member_userId member = room_ownerId room")
    case True
    show ?thesis
    proof (cases "dissolve room member owner_disconnected s")
      case n: None
      then show ?thesis using None True notify_others_extends by (simp add: probe_member_def)
    next
      case (Some s1)
      then show ?thesis using None True dissolve_extends [OF Some] by (simp add: probe_member_def)
    qed
  next
    case False
    show ?thesis
    proof (cases "roomMember_delete (room_id room) (member_userId member) s")
      case n: None
      then show ?thesis using None False by (simp add: probe_member_def split: option.splits)
    next
      case (Some s1)
      then show ?thesis
        using None False extends_same [OF roomMember_delete_sent [OF Some]]
        by (simp add: probe_member_def split: option.splits)
    qed
  qed
qed

lemma check_threshold_extends: "extends s (state_of (check_threshold m room member s))"
proof (cases "dissolve room member owner_timeout s")
  case None
  show ?thesis
  proof (cases "roomMember_delete (room_id room) (member_userId member) s")
    case n: None
    then show ?thesis
      using None notify_others_extends
      by (simp add: check_threshold_def Let_def split: option.splits)
  next
    case (Some s1)
    then show ?thesis
      using None notify_others_extends extends_delete [OF extends_same [OF roomMember_delete_sent [OF Some]]]
      by (simp add: check_threshold_def Let_def split: option.splits)
  qed
next
  case (Some s2)
  note d = extends_delete [OF dissolve_extends [OF Some]]
  show ?thesis
  proof (cases "roomMember_delete (room_id room) (member_userId member) s")
    case n: None
    then show ?thesis
      using Some d by (simp add: check_threshold_def Let_def split: option.splits)
  next
    case s1: (Some s1)
    then show ?thesis
      using Some d extends_delete [OF extends_same [OF roomMember_delete_sent [OF s1]]]
      by (simp add: check_threshold_def Let_def split: option.splits)
  qed
qed

lemma process_member_extends: "extends s (state_of (process_member now m room member s))"
proof (cases "probe_member now room member s")
  case (Normal s1)
  then have "extends s s1" using probe_member_extends [of s now room member] by simp
  from extends_trans [OF this check_threshold_extends [of s1 m room member]] show ?thesis
    using Normal by (simp add: process_member_def)
next
  case (Returned s1)
  then show ?thesis using probe_member_extends [of s now room member] by (simp add: process_member_def)
next
  case (Thrown s1)
  then show ?thesis using probe_member_extends [of s now room member] by (simp add: process_member_def)
qed

lemma member_loop_extends: "extends s (state_of (member_loop now m room ms s))"
proof (induction ms arbitrary: s)
  case Nil
  show ?case by simp
next
  case (Cons a ms)
  show ?case
  proof (cases "process_member now m room a s")
    case (Normal s1)
    then have "extends s s1" using process_member_extends [of s now m room a] by simp
    from extends_trans [OF this Cons.IH [of s1]] show ?thesis using Normal by simp
  next
    case (Returned s1)
    then show ?thesis using process_member_extends [of s now m room a] by simp
  next
    case (Thrown s1)
    then show ?thesis using process_member_extends [of s now m room a] by simp
  qed
qed

lemma notify_vanished_extends: "extends s (notify_vanished room ms s)"
proof (induction ms arbitrary: s)
  case Nil
  show ?case by simp
next
  case (Cons a ms)
  let ?k = "clientId (room_roomId room) (member_userId a)"
  show ?case
  proof (cases "clients_get s ?k")
    case None
    then show ?thesis using Cons.IH [of s] by simp
  next
    case (Some cl)
    show ?thesis
    proof (cases "ws cl \<in> broken s")
      case True
      let ?s1 = "clients_delete ?k (log_error (notify_user_failed (member_userId a)) s)"
      have "extends s ?s1" by (simp add: extends_def clients_delete_def log_error_def)
      from extends_trans [OF this Cons.IH [of ?s1]] show ?thesis
        using Some True by (simp add: ws_send_def)
    next
      case False
      let ?s1 = "clients_delete ?k (s\<lparr>sent := sent s @ [(ws cl, Out_room_deleted (room_roomId room) None)]\<rparr>)"
      have "extends s ?s1" by (simp add: extends_def clients_delete_def)
      from extends_trans [OF this Cons.IH [of ?s1]] show ?thesis
        using Some False by (simp add: ws_send_def)
    qed
  qed
qed

lemma extends_case:
  assumes "extends s (state_of r)" and "\<And>x. extends x (state_of (f x))"
  shows "extends s (state_of (case r of Normal x \<Rightarrow> f x | Returned x \<Rightarrow> Returned x | Thrown x \<Rightarrow> Thrown x))"
proof (cases r)
  case (Normal x)
  with assms(1) have "extends s x" by simp
  from extends_trans [OF this assms(2) [of x]] show ?thesis using Normal by simp
next
  case (Returned x)
  with assms(1) show ?thesis by simp
next
  case (Thrown x)
  with assms(1) show ?thesis by simp
qed

lemma grows_case:
  assumes "grows s (state_of r)" and "\<And>x. grows x (state_of (f x))"
  shows "grows s (state_of (case r of Normal x \<Rightarrow> f x | Returned x \<Rightarrow> Returned x | Thrown x \<Rightarrow> Thrown x))"
proof (cases r)
  case (Normal x)
  with assms(1) have "grows s x" by simp
  from grows_trans [OF this assms(2) [of x]] show ?thesis using Normal by simp
next
  case (Returned x)
  with assms(1) show ?thesis by simp
next
  case (Thrown x)
  with assms(1) show ?thesis by simp
qed

lemma process_room_exists:
  assumes "room_findUnique (room_id room) s = Some r"
  shows "process_room now m room s =
     (case member_loop now m room (roomMember_findMany (room_id room) s) s of
        Normal x \<Rightarrow> after_members room x | Returned x \<Rightarrow> Returned x | Thrown x \<Rightarrow> Thrown x)"
  using assms by (simp add: process_room_def after_members_def split: outcome.splits)

lemma after_members_extends: "extends x (state_of (after_members room x))"
  by (auto simp: after_members_def extends_def dest: room_delete_sent split: option.splits)

lemma after_members_grows: "grows x (state_of (after_members room x))"
  by (auto simp: after_members_def intro: grows_same dest: room_delete_clients split: option.splits)

lemma process_room_extends: "extends s (state_of (process_room now m room s))"
proof (cases "room_findUnique (room_id room) s")
  case None
  then show ?thesis by (simp add: process_room_def notify_vanished_extends)
next
  case (Some r)
  show ?thesis
    unfolding process_room_exists [OF Some]
    by (rule extends_case [OF member_loop_extends after_members_extends])
qed

lemma room_loop_extends: "extends s (state_of (room_loop now m rs s))"
proof (induction rs arbitrary: s)
  case Nil
  show ?case by simp
next
  case (Cons a rs)
  show ?case
    using extends_case [OF process_room_extends [of s now m a], of "room_loop now m rs"] Cons.IH
    by simp
qed

lemma finish_onward: "grows (state_of r) (finish r) \<and> extends (state_of r) (finish r)"
  by (cases r) (simp_all add: finish_def grows_same extends_same log_error_def)

lemma cycle_from_member:
  assumes "room_findMany_active s0 = rs1 @ room # rs2"
    and "room_loop now m rs1 s0 = Normal s1"
    and "room_findUnique (room_id room) s1 = Some r"
    and "roomMember_findMany (room_id room) s1 = ms1 @ member # ms2"
    and "member_loop now m room ms1 s1 = Normal s2"
  shows "grows (state_of (process_member now m room member s2)) (heartbeatCheckInterval now m s0)"
    and "extends (state_of (process_member now m room member s2)) (heartbeatCheckInterval now m s0)"
proof -
  let ?pm = "process_member now m room member s2"
  let ?ml = "case ?pm of Normal x \<Rightarrow> member_loop now m room ms2 x
               | Returned x \<Rightarrow> Returned x | Thrown x \<Rightarrow> Thrown x"
  let ?pr = "case ?ml of Normal x \<Rightarrow> after_members room x
               | Returned x \<Rightarrow> Returned x | Thrown x \<Rightarrow> Thrown x"
  let ?rl = "case ?pr of Normal x \<Rightarrow> room_loop now m rs2 x
               | Returned x \<Rightarrow> Returned x | Thrown x \<Rightarrow> Thrown x"
  have ml: "member_loop now m room (ms1 @ member # ms2) s1 = ?ml"
    using assms(5) by (simp add: member_loop_append)
  have pr: "process_room now m room s1 = ?pr"
    using assms(4) ml by (simp add: process_room_exists [OF assms(3)])
  have rl: "room_loop now m (rs1 @ room # rs2) s0 = ?rl"
    using assms(2) pr by (simp add: room_loop_append)
  have fin: "heartbeatCheckInterval now m s0 = finish ?rl"
    using assms(1) rl by (simp add: heartbeatCheckInterval_def finish_def)
  have g1: "grows (state_of ?pm) (state_of ?ml)"
    by (rule grows_case [OF grows_refl member_loop_grows])
  have g2: "grows (state_of ?pm) (state_of ?pr)"
    by (rule grows_case [OF g1 after_members_grows])
  have g3: "grows (state_of ?pm) (state_of ?rl)"
    by (rule grows_case [OF g2 room_loop_grows])
  have e1: "extends (state_of ?pm) (state_of ?ml)"
    by (rule extends_case [OF extends_refl member_loop_extends])
  have e2: "extends (state_of ?pm) (state_of ?pr)"
    by (rule extends_case [OF e1 after_members_extends])
  have e3: "extends (state_of ?pm) (state_of ?rl)"
    by (rule extends_case [OF e2 room_loop_extends])
  show "grows (state_of ?pm) (heartbeatCheckInterval now m s0)"
    unfolding fin using grows_trans [OF g3] finish_onward by blast
  show "extends (state_of ?pm) (heartbeatCheckInterval now m s0)"
    unfolding fin using extends_trans [OF e3] finish_onward by blast
qed

section \<open>Counting a probe\<close>

lemma grows_zero:
  assumes "grows s s'" and "clients_get s' k = Some c'" and "failedHeartbeats c' = 0"
  shows "clients_get s k = Some c'"
proof -
  from assms(1,2) obtain c0 n where
    c0: "clients_get s k = Some c0" and e: "c' = c0\<lparr>failedHeartbeats := failedHeartbeats c0 + n\<rparr>"
    unfolding grows_def by blast
  have "failedHeartbeats c' = failedHeartbeats c0 + n" by (simp add: e)
  with assms(3) have "failedHeartbeats c0 + n = 0" by simp
  then have "c' = c0" by (simp add: e)
  with c0 show ?thesis by simp
qed

lemma on_close_keeps: "clients_get (on_close c s) k = Some c' \<Longrightarrow> clients_get s k = Some c'"
  by (auto simp: on_close_def split: option.splits if_splits)

lemma probe_counted_in_cycle:
  assumes "room_findMany_active s0 = rs1 @ room # rs2"
    and "room_loop now m rs1 s0 = Normal s1"
    and "room_findUnique (room_id room) s1 = Some r"
    and "roomMember_findMany (room_id room) s1 = ms1 @ member # ms2"
    and "member_loop now m room ms1 s1 = Normal s2"
    and "clients_get s2 (clientId (room_roomId room) (member_userId member)) = Some cl"
  shows "\<exists>p. probe_member now room member s2 = Normal p \<and>
           clients_get p (clientId (room_roomId room) (member_userId member)) =
             Some (cl\<lparr>failedHeartbeats := failedHeartbeats cl + 1\<rparr>) \<and>
           sent p = (if ws cl \<in> broken s2 then sent s2 else sent s2 @ [(ws cl, Out_heartbeat now)]) \<and>
           process_member now m room member s2 = check_threshold m room member p \<and>
           (\<exists>post. sent (heartbeatCheckInterval now m s0) = sent p @ post) \<and>
           (clients_get (heartbeatCheckInterval now m s0)
               (clientId (room_roomId room) (member_userId member)) = None \<or>
            (\<exists>n. clients_get (heartbeatCheckInterval now m s0)
                    (clientId (room_roomId room) (member_userId member)) =
                  Some (cl\<lparr>failedHeartbeats := failedHeartbeats cl + 1 + n\<rparr>)))"
proof -
  let ?k = "clientId (room_roomId room) (member_userId member)"
  let ?p = "probed now room member cl s2"
  let ?F = "heartbeatCheckInterval now m s0"
  have pm: "process_member now m room member s2 = check_threshold m room member ?p"
    by (rule process_member_live [OF assms(6)])
  have a: "probe_member now room member s2 = Normal ?p"
    by (simp add: probe_member_live [OF assms(6)] probed_def)
  have b: "clients_get ?p ?k = Some (cl\<lparr>failedHeartbeats := failedHeartbeats cl + 1\<rparr>)" by simp
  have c: "sent ?p = (if ws cl \<in> broken s2 then sent s2 else sent s2 @ [(ws cl, Out_heartbeat now)])"
    by (simp add: probed_def clients_set_def log_error_def)
  have "extends ?p (state_of (check_threshold m room member ?p))"
    by (rule check_threshold_extends)
  from extends_trans [OF this] cycle_from_member(2) [OF assms(1-5)]
  have "extends ?p ?F" by (simp add: pm)
  then have d: "\<exists>post. sent ?F = sent ?p @ post" by (simp add: extends_def)
  have "grows ?p (state_of (check_threshold m room member ?p))"
    by (rule check_threshold_grows)
  from grows_trans [OF this] cycle_from_member(1) [OF assms(1-5)]
  have g: "grows ?p ?F" by (simp add: pm)
  have e: "clients_get ?F ?k = None \<or>
      (\<exists>n. clients_get ?F ?k = Some (cl\<lparr>failedHeartbeats := failedHeartbeats cl + 1 + n\<rparr>))"
  proof (cases "clients_get ?F ?k")
    case None
    then show ?thesis by simp
  next
    case (Some c')
    with g obtain c0 n where c0: "clients_get ?p ?k = Some c0"
      and e: "c' = c0\<lparr>failedHeartbeats := failedHeartbeats c0 + n\<rparr>"
      unfolding grows_def by blast
    from c0 b have "c0 = cl\<lparr>failedHeartbeats := failedHeartbeats cl + 1\<rparr>" by simp
    with e have "c' = cl\<lparr>failedHeartbeats := failedHeartbeats cl + 1 + n\<rparr>" by simp
    with Some show ?thesis by blast
  qed
  from a b c pm d e show ?thesis by blast
qed

lemma join_installs_zero:
  assumes "uid \<noteq> []" and "rid \<noteq> []"
  shows "clients_get (snd (on_message now c (In_join (Some uid) (Some rid)) s)) (clientId rid uid) =
           Some \<lparr>ws = conn_ws c, userId = uid, roomId = rid, failedHeartbeats = 0, lastHeartbeat = now\<rparr>"
  by (rule join_installs [OF assms])

text \<open>
  C4. (1) Take any cycle and any member the sweeper reaches (the rooms before its room
  and the members before it were processed, the store still had the room) whose
  registry entry exists. The probe step ends normally in a state \<open>p\<close> where the counter of
  that entry is one higher, whether the \<open>send\<close> went through (then the probe is the frame
  written) or raised; the threshold check of the same loop body runs on \<open>p\<close>, so the probe
  is counted before any ack can be known; and the cycle goes on from there: what it has
  written at its end starts with what \<open>p\<close> has, and the entry, if it is still there, has
  the counter of \<open>p\<close> or more. (2) A \<open>heartbeat\<close> ack sets the counter to 0 and an accepted
  \<open>join\<close> installs an entry with counter 0. (3) Nothing else does: after any frame, an
  entry with counter 0 was that same entry before, unless the frame was an accepted
  \<open>join\<close> or a \<open>heartbeat\<close> for that key; a close only removes; a cycle, the loop body for
  a member at any state, and the notification of a vanished room leave an entry with
  counter 0 only where it was that same entry before.
\<close>

theorem probe_counted_when_sent:
  "(room_findMany_active s0 = rs1 @ room # rs2 \<and>
    room_loop now MAX_FAILED_HEARTBEATS rs1 s0 = Normal s1 \<and>
    room_findUnique (room_id room) s1 = Some r \<and>
    roomMember_findMany (room_id room) s1 = ms1 @ member # ms2 \<and>
    member_loop now MAX_FAILED_HEARTBEATS room ms1 s1 = Normal s2 \<and>
    clients_get s2 (clientId (room_roomId room) (member_userId member)) = Some cl \<longrightarrow>
      (\<exists>p. probe_member now room member s2 = Normal p \<and>
           clients_get p (clientId (room_roomId room) (member_userId member)) =
             Some (cl\<lparr>failedHeartbeats := failedHeartbeats cl + 1\<rparr>) \<and>
           sent p = (if ws cl \<in> broken s2 then sent s2 else sent s2 @ [(ws cl, Out_heartbeat now)]) \<and>
           process_member now MAX_FAILED_HEARTBEATS room member s2 =
             check_threshold MAX_FAILED_HEARTBEATS room member p \<and>
           (\<exists>post. sent (heartbeatCheckInterval now MAX_FAILED_HEARTBEATS s0) = sent p @ post) \<and>
           (clients_get (heartbeatCheckInterval now MAX_FAILED_HEARTBEATS s0)
               (clientId (room_roomId room) (member_userId member)) = None \<or>
            (\<exists>n. clients_get (heartbeatCheckInterval now MAX_FAILED_HEARTBEATS s0)
                    (clientId (room_roomId room) (member_userId member)) =
                  Some (cl\<lparr>failedHeartbeats := failedHeartbeats cl + 1 + n\<rparr>))))) \<and>
   (conn_userId c = Some uid \<and> conn_roomId c = Some rid \<and> uid \<noteq> [] \<and> rid \<noteq> [] \<and>
    clients_get s (clientId rid uid) = Some acked \<longrightarrow>
      clients_get (snd (on_message t c In_heartbeat s)) (clientId rid uid) =
        Some (acked\<lparr>failedHeartbeats := 0, lastHeartbeat := t\<rparr>)) \<and>
   (uid \<noteq> [] \<and> rid \<noteq> [] \<longrightarrow>
      clients_get (snd (on_message t c (In_join (Some uid) (Some rid)) s)) (clientId rid uid) =
        Some \<lparr>ws = conn_ws c, userId = uid, roomId = rid, failedHeartbeats = 0, lastHeartbeat = t\<rparr>) \<and>
   (clients_get (snd (on_message t c f s)) k = Some c' \<and> failedHeartbeats c' = 0 \<longrightarrow>
      clients_get s k = Some c' \<or>
      (\<exists>u r. u \<noteq> [] \<and> r \<noteq> [] \<and> k = clientId r u \<and>
         (f = In_join (Some u) (Some r) \<or>
          (f = In_heartbeat \<and> conn_userId c = Some u \<and> conn_roomId c = Some r)))) \<and>
   (clients_get (on_close c s) k = Some c' \<longrightarrow> clients_get s k = Some c') \<and>
   (clients_get (heartbeatCheckInterval t MAX_FAILED_HEARTBEATS s) k = Some c' \<and>
    failedHeartbeats c' = 0 \<longrightarrow> clients_get s k = Some c') \<and>
   (clients_get (state_of (process_member t MAX_FAILED_HEARTBEATS room member s)) k = Some c' \<and>
    failedHeartbeats c' = 0 \<longrightarrow> clients_get s k = Some c') \<and>
   (clients_get (notify_vanished room ms s) k = Some c' \<and>
    failedHeartbeats c' = 0 \<longrightarrow> clients_get s k = Some c')"
proof (intro conjI impI)
  assume "room_findMany_active s0 = rs1 @ room # rs2 \<and>
    room_loop now MAX_FAILED_HEARTBEATS rs1 s0 = Normal s1 \<and>
    room_findUnique (room_id room) s1 = Some r \<and>
    roomMember_findMany (room_id room) s1 = ms1 @ member # ms2 \<and>
    member_loop now MAX_FAILED_HEARTBEATS room ms1 s1 = Normal s2 \<and>
    clients_get s2 (clientId (room_roomId room) (member_userId member)) = Some cl"
  then show "\<exists>p. probe_member now room member s2 = Normal p \<and>
           clients_get p (clientId (room_roomId room) (member_userId member)) =
             Some (cl\<lparr>failedHeartbeats := failedHeartbeats cl + 1\<rparr>) \<and>
           sent p = (if ws cl \<in> broken s2 then sent s2 else sent s2 @ [(ws cl, Out_heartbeat now)]) \<and>
           process_member now MAX_FAILED_HEARTBEATS room member s2 =
             check_threshold MAX_FAILED_HEARTBEATS room member p \<and>
           (\<exists>post. sent (heartbeatCheckInterval now MAX_FAILED_HEARTBEATS s0) = sent p @ post) \<and>
           (clients_get (heartbeatCheckInterval now MAX_FAILED_HEARTBEATS s0)
               (clientId (room_roomId room) (member_userId member)) = None \<or>
            (\<exists>n. clients_get (heartbeatCheckInterval now MAX_FAILED_HEARTBEATS s0)
                    (clientId (room_roomId room) (member_userId member)) =
                  Some (cl\<lparr>failedHeartbeats := failedHeartbeats cl + 1 + n\<rparr>)))"
    using probe_counted_in_cycle [of s0 rs1 room rs2 now MAX_FAILED_HEARTBEATS s1 r ms1 member ms2 s2 cl]
    by blast
next
  assume "conn_userId c = Some uid \<and> conn_roomId c = Some rid \<and> uid \<noteq> [] \<and> rid \<noteq> [] \<and>
    clients_get s (clientId rid uid) = Some acked"
  then show "clients_get (snd (on_message t c In_heartbeat s)) (clientId rid uid) =
        Some (acked\<lparr>failedHeartbeats := 0, lastHeartbeat := t\<rparr>)"
    using heartbeat_resets [of c uid rid s acked t] by blast
next
  assume "uid \<noteq> [] \<and> rid \<noteq> []"
  then show "clients_get (snd (on_message t c (In_join (Some uid) (Some rid)) s)) (clientId rid uid) =
        Some \<lparr>ws = conn_ws c, userId = uid, roomId = rid, failedHeartbeats = 0, lastHeartbeat = t\<rparr>"
    using join_installs_zero [of uid rid t c s] by blast
next
  assume "clients_get (snd (on_message t c f s)) k = Some c' \<and> failedHeartbeats c' = 0"
  then show "clients_get s k = Some c' \<or>
      (\<exists>u r. u \<noteq> [] \<and> r \<noteq> [] \<and> k = clientId r u \<and>
         (f = In_join (Some u) (Some r) \<or>
          (f = In_heartbeat \<and> conn_userId c = Some u \<and> conn_roomId c = Some r)))"
    using on_message_reset [of t c f s k c'] by blast
next
  assume "clients_get (on_close c s) k = Some c'"
  then show "clients_get s k = Some c'" by (rule on_close_keeps)
next
  assume "clients_get (heartbeatCheckInterval t MAX_FAILED_HEARTBEATS s) k = Some c' \<and>
    failedHeartbeats c' = 0"
  then show "clients_get s k = Some c'"
    using grows_zero [OF sweep_grows] by blast
next
  assume "clients_get (state_of (process_member t MAX_FAILED_HEARTBEATS room member s)) k = Some c' \<and>
    failedHeartbeats c' = 0"
  then show "clients_get s k = Some c'"
    using grows_zero [OF process_member_grows] by blast
next
  assume "clients_get (notify_vanished room ms s) k = Some c' \<and> failedHeartbeats c' = 0"
  then show "clients_get s k = Some c'"
    using grows_zero [OF notify_vanished_grows] by blast
qed

lemmas eval_defs = sweep_defs catch_message_def all_example_defs st_healthy_def st_healthy_U1_probed_def

theorem probe_counted_when_sent_witness:
  "room_findMany_active st_healthy = [] @ room1 # [] \<and>
   room_loop 9 3 [] st_healthy = Normal st_healthy \<and>
   room_findUnique (room_id room1) st_healthy = Some room1 \<and>
   roomMember_findMany (room_id room1) st_healthy = [memb ''r1'' ''U1''] @ memb ''r1'' ''U2'' # [] \<and>
   member_loop 9 3 room1 [memb ''r1'' ''U1''] st_healthy = Normal st_healthy_U1_probed \<and>
   clients_get st_healthy_U1_probed (clientId (room_roomId room1) (member_userId (memb ''r1'' ''U2''))) =
     Some (mk_client 2 ''U2'' ''R1'' 1) \<and>
   (\<exists>p. probe_member 9 room1 (memb ''r1'' ''U2'') st_healthy_U1_probed = Normal p \<and>
        clients_get p ''R1_U2'' = Some (mk_client 2 ''U2'' ''R1'' 2) \<and>
        sent p = [(1, Out_heartbeat 9), (2, Out_heartbeat 9)] \<and>
        process_member 9 3 room1 (memb ''r1'' ''U2'') st_healthy_U1_probed =
          check_threshold 3 room1 (memb ''r1'' ''U2'') p \<and>
        (\<exists>post. sent (heartbeatCheckInterval 9 3 st_healthy) = sent p @ post)) \<and>
   clients_get (heartbeatCheckInterval 9 3 st_healthy) ''R1_U2'' = Some (mk_client 2 ''U2'' ''R1'' 2) \<and>
   sent (heartbeatCheckInterval 9 3 st_healthy) = [(1, Out_heartbeat 9), (2, Out_heartbeat 9)] \<and>
   conn_userId conn_U1 = Some ''U1'' \<and> conn_roomId conn_U1 = Some ''R1'' \<and>
   clients_get st_timeout (clientId ''R1'' ''U1'') = Some (mk_client 1 ''U1'' ''R1'' 2) \<and>
   clients_get (snd (on_message 7 conn_U1 In_heartbeat st_timeout)) ''R1_U1'' =
     Some \<lparr>ws = 1, userId = ''U1'', roomId = ''R1'', failedHeartbeats = 0, lastHeartbeat = 7\<rparr> \<and>
   clients_get (snd (on_message 7 T1 (In_join (Some ''P'') (Some ''R'')) st_timeout)) ''R_P'' =
     Some \<lparr>ws = 1, userId = ''P'', roomId = ''R'', failedHeartbeats = 0, lastHeartbeat = 7\<rparr> \<and>
   clients_get st_timeout ''R1_U1'' \<noteq>
     Some \<lparr>ws = 1, userId = ''U1'', roomId = ''R1'', failedHeartbeats = 0, lastHeartbeat = 7\<rparr> \<and>
   (\<exists>u r. u \<noteq> [] \<and> r \<noteq> [] \<and> ''R1_U1'' = clientId r u \<and>
      (In_heartbeat = In_join (Some u) (Some r) \<or>
       (In_heartbeat = In_heartbeat \<and> conn_userId conn_U1 = Some u \<and> conn_roomId conn_U1 = Some r))) \<and>
   clients_get (on_close conn_U1 st_timeout) ''R1_U2'' = Some (mk_client 2 ''U2'' ''R1'' 0) \<and>
   clients_get st_timeout ''R1_U2'' = Some (mk_client 2 ''U2'' ''R1'' 0) \<and>
   clients_get (heartbeatCheckInterval 9 3 st_timeout) ''R1_U2'' = Some (mk_client 2 ''U2'' ''R1'' 0) \<and>
   clients_get (state_of (process_member 9 3 room1 (memb ''r1'' ''U1'') st_timeout)) ''R1_U2'' =
     Some (mk_client 2 ''U2'' ''R1'' 0) \<and>
   clients_get (notify_vanished room1 [memb ''r1'' ''U1''] st_timeout) ''R1_U2'' =
     Some (mk_client 2 ''U2'' ''R1'' 0) \<and>
   failedHeartbeats (mk_client 2 ''U2'' ''R1'' 0) = 0"
proof -
  note t = probe_counted_when_sent [where ?s0.0 = st_healthy and ?rs1.0 = "[]" and room = room1
      and ?rs2.0 = "[]" and now = 9 and MAX_FAILED_HEARTBEATS = 3 and ?s1.0 = st_healthy and r = room1
      and ?ms1.0 = "[memb ''r1'' ''U1'']" and member = "memb ''r1'' ''U2''" and ?ms2.0 = "[]"
      and ?s2.0 = st_healthy_U1_probed and cl = "mk_client 2 ''U2'' ''R1'' 1"
      and c = conn_U1 and uid = "''U1''" and rid = "''R1''" and s = st_timeout
      and acked = "mk_client 1 ''U1'' ''R1'' 2" and t = 7 and f = In_heartbeat and k = "''R1_U1''"
      and c' = "\<lparr>ws = 1, userId = ''U1'', roomId = ''R1'', failedHeartbeats = 0, lastHeartbeat = 7\<rparr>"]
  have h: "room_findMany_active st_healthy = [] @ room1 # []"
    "room_loop 9 3 [] st_healthy = Normal st_healthy"
    "room_findUnique (room_id room1) st_healthy = Some room1"
    "roomMember_findMany (room_id room1) st_healthy = [memb ''r1'' ''U1''] @ memb ''r1'' ''U2'' # []"
    "member_loop 9 3 room1 [memb ''r1'' ''U1''] st_healthy = Normal st_healthy_U1_probed"
    "clients_get st_healthy_U1_probed (clientId (room_roomId room1) (member_userId (memb ''r1'' ''U2''))) =
       Some (mk_client 2 ''U2'' ''R1'' 1)"
    by (simp_all add: eval_defs)
  have k: "clientId (room_roomId room1) (member_userId (memb ''r1'' ''U2'')) = ''R1_U2''"
    "mk_client 2 ''U2'' ''R1'' 1\<lparr>failedHeartbeats := failedHeartbeats (mk_client 2 ''U2'' ''R1'' 1) + 1\<rparr> =
       mk_client 2 ''U2'' ''R1'' 2"
    "ws (mk_client 2 ''U2'' ''R1'' 1) \<notin> broken st_healthy_U1_probed"
    "sent st_healthy_U1_probed @ [(ws (mk_client 2 ''U2'' ''R1'' 1), Out_heartbeat 9)] =
       [(1, Out_heartbeat 9), (2, Out_heartbeat 9)]"
    by (simp_all add: eval_defs)
  from t h have "\<exists>p. probe_member 9 room1 (memb ''r1'' ''U2'') st_healthy_U1_probed = Normal p \<and>
        clients_get p (clientId (room_roomId room1) (member_userId (memb ''r1'' ''U2''))) =
          Some (mk_client 2 ''U2'' ''R1'' 1\<lparr>failedHeartbeats := failedHeartbeats (mk_client 2 ''U2'' ''R1'' 1) + 1\<rparr>) \<and>
        sent p = (if ws (mk_client 2 ''U2'' ''R1'' 1) \<in> broken st_healthy_U1_probed
                  then sent st_healthy_U1_probed
                  else sent st_healthy_U1_probed @ [(ws (mk_client 2 ''U2'' ''R1'' 1), Out_heartbeat 9)]) \<and>
        process_member 9 3 room1 (memb ''r1'' ''U2'') st_healthy_U1_probed =
          check_threshold 3 room1 (memb ''r1'' ''U2'') p \<and>
        (\<exists>post. sent (heartbeatCheckInterval 9 3 st_healthy) = sent p @ post)"
    by blast
  then have part1: "\<exists>p. probe_member 9 room1 (memb ''r1'' ''U2'') st_healthy_U1_probed = Normal p \<and>
        clients_get p ''R1_U2'' = Some (mk_client 2 ''U2'' ''R1'' 2) \<and>
        sent p = [(1, Out_heartbeat 9), (2, Out_heartbeat 9)] \<and>
        process_member 9 3 room1 (memb ''r1'' ''U2'') st_healthy_U1_probed =
          check_threshold 3 room1 (memb ''r1'' ''U2'') p \<and>
        (\<exists>post. sent (heartbeatCheckInterval 9 3 st_healthy) = sent p @ post)"
    by (simp only: k if_False)
  have ev: "clients_get (heartbeatCheckInterval 9 3 st_healthy) ''R1_U2'' = Some (mk_client 2 ''U2'' ''R1'' 2)"
    "sent (heartbeatCheckInterval 9 3 st_healthy) = [(1, Out_heartbeat 9), (2, Out_heartbeat 9)]"
    "conn_userId conn_U1 = Some ''U1''" "conn_roomId conn_U1 = Some ''R1''"
    "clients_get st_timeout (clientId ''R1'' ''U1'') = Some (mk_client 1 ''U1'' ''R1'' 2)"
    "clients_get (snd (on_message 7 conn_U1 In_heartbeat st_timeout)) ''R1_U1'' =
       Some \<lparr>ws = 1, userId = ''U1'', roomId = ''R1'', failedHeartbeats = 0, lastHeartbeat = 7\<rparr>"
    "clients_get (snd (on_message 7 T1 (In_join (Some ''P'') (Some ''R'')) st_timeout)) ''R_P'' =
       Some \<lparr>ws = 1, userId = ''P'', roomId = ''R'', failedHeartbeats = 0, lastHeartbeat = 7\<rparr>"
    "clients_get st_timeout ''R1_U1'' \<noteq>
       Some \<lparr>ws = 1, userId = ''U1'', roomId = ''R1'', failedHeartbeats = 0, lastHeartbeat = 7\<rparr>"
    "clients_get (on_close conn_U1 st_timeout) ''R1_U2'' = Some (mk_client 2 ''U2'' ''R1'' 0)"
    "clients_get st_timeout ''R1_U2'' = Some (mk_client 2 ''U2'' ''R1'' 0)"
    "clients_get (heartbeatCheckInterval 9 3 st_timeout) ''R1_U2'' = Some (mk_client 2 ''U2'' ''R1'' 0)"
    "clients_get (state_of (process_member 9 3 room1 (memb ''r1'' ''U1'') st_timeout)) ''R1_U2'' =
       Some (mk_client 2 ''U2'' ''R1'' 0)"
    "clients_get (notify_vanished room1 [memb ''r1'' ''U1''] st_timeout) ''R1_U2'' =
       Some (mk_client 2 ''U2'' ''R1'' 0)"
    "failedHeartbeats (mk_client 2 ''U2'' ''R1'' 0) = 0"
    by (simp_all add: eval_defs T1_def on_close_def)
  have z: "failedHeartbeats \<lparr>ws = 1, userId = ''U1'', roomId = ''R1'', failedHeartbeats = 0, lastHeartbeat = 7\<rparr> = 0"
    by simp
  from t ev(6,8) z have part2: "\<exists>u r. u \<noteq> [] \<and> r \<noteq> [] \<and> ''R1_U1'' = clientId r u \<and>
      (In_heartbeat = In_join (Some u) (Some r) \<or>
       (In_heartbeat = In_heartbeat \<and> conn_userId conn_U1 = Some u \<and> conn_roomId conn_U1 = Some r))"
    by blast
  show ?thesis using h part1 ev part2 by blast
qed

section \<open>A cycle that removes nothing\<close>







section \<open>Reaching the maximum\<close>







end
